theory Spec2Isabelle
  imports Complex_Main
begin

section \<open>Arrays and the numeric backend\<close>

text \<open>
  The classifiers of \<^verbatim>\<open>classifications.py\<close> work on dense numpy arrays. A 1-D array is a
  list of numbers and a 2-D array is the list of its rows; numbers are real numbers, so the
  development is about the arithmetic the code writes down, not about its rounding. An array
  with no rows is the empty list, whose column count reads 0. Labels are integers.

  The linear-algebra primitives \<^verbatim>\<open>np.linalg.solve\<close> and \<^verbatim>\<open>np.linalg.inv\<close> belong to numpy,
  not to this file: they are parameters of the model, returning \<open>None\<close> where numpy raises
  \<^verbatim>\<open>LinAlgError\<close>.

  The model is meant for arguments whose shapes fit. Where they do not, numpy raises
  \<^verbatim>\<open>ValueError\<close> or broadcasts, while the list operations below stop at the shorter list; a
  property that depends on shapes states them as hypotheses. Rounding and overflow are not
  modelled. Where the code can divide by zero or take the logarithm or square root of a number
  outside the function's domain, the model of \<^verbatim>\<open>LinearDiscriminantAnalysis.fit\<close> tests for it
  and returns \<open>NotFinite\<close>. The sigmoid, the softmax of a non-empty row, a column mean and the
  clipped norm divide by positive numbers; \<^verbatim>\<open>predict_dist\<close> divides by a square root that is
  at least 1 when the variance is not negative, which its property assumes.
\<close>

type_synonym vec = "real list"
type_synonym mat = "real list list"
type_synonym solver = "mat \<Rightarrow> vec \<Rightarrow> vec option"
type_synonym inverter = "mat \<Rightarrow> mat option"

datatype py_error = AssertionError | UnboundLocalError | ValueError | IndexError | LinAlgError

definition ncols :: "'a list list \<Rightarrow> nat" where
  \<comment> \<open>\<^verbatim>\<open>np.size(X, 1)\<close>\<close>
  "ncols X = (case X of [] \<Rightarrow> 0 | r # _ \<Rightarrow> length r)"

definition zeros :: "nat \<Rightarrow> vec" where
  "zeros d = replicate d 0"

definition eye :: "nat \<Rightarrow> mat" where
  "eye d = map (\<lambda>i. map (\<lambda>j. if i = j then 1 else 0) [0..<d]) [0..<d]"

definition mT :: "mat \<Rightarrow> mat" where
  \<comment> \<open>\<^verbatim>\<open>X.T\<close> of a 2-D array\<close>
  "mT X = map (\<lambda>j. map (\<lambda>r. r ! j) X) [0..<ncols X]"

definition dot :: "vec \<Rightarrow> vec \<Rightarrow> real" where
  "dot u v = sum_list (map2 (*) u v)"

definition matvec :: "mat \<Rightarrow> vec \<Rightarrow> vec" where
  \<comment> \<open>\<^verbatim>\<open>A @ v\<close>, 2-D by 1-D\<close>
  "matvec A v = map (\<lambda>r. dot r v) A"

definition matmul :: "mat \<Rightarrow> mat \<Rightarrow> mat" where
  \<comment> \<open>\<^verbatim>\<open>A @ B\<close>, 2-D by 2-D\<close>
  "matmul A B = map (\<lambda>r. map (dot r) (mT B)) A"

definition vadd :: "vec \<Rightarrow> vec \<Rightarrow> vec" where
  "vadd u v = map2 (+) u v"

definition vsub :: "vec \<Rightarrow> vec \<Rightarrow> vec" where
  "vsub u v = map2 (-) u v"

definition vmul :: "vec \<Rightarrow> vec \<Rightarrow> vec" where
  \<comment> \<open>elementwise \<^verbatim>\<open>u * v\<close>\<close>
  "vmul u v = map2 (*) u v"

definition vscale :: "real \<Rightarrow> vec \<Rightarrow> vec" where
  "vscale c v = map ((*) c) v"

definition madd :: "mat \<Rightarrow> mat \<Rightarrow> mat" where
  "madd A B = map2 vadd A B"

definition msub :: "mat \<Rightarrow> mat \<Rightarrow> mat" where
  "msub A B = map2 vsub A B"

definition mscale :: "real \<Rightarrow> mat \<Rightarrow> mat" where
  "mscale c A = map (vscale c) A"

definition rows_times :: "mat \<Rightarrow> vec \<Rightarrow> mat" where
  \<comment> \<open>\<^verbatim>\<open>A * v\<close> with \<open>v\<close> broadcast along the last axis: every row times \<open>v\<close>\<close>
  "rows_times A v = map (\<lambda>r. vmul r v) A"

definition diag :: "vec \<Rightarrow> mat" where
  \<comment> \<open>\<^verbatim>\<open>np.diag(v)\<close>\<close>
  "diag v = map (\<lambda>i. map (\<lambda>j. if i = j then v ! i else 0) [0..<length v]) [0..<length v]"

definition rtol :: real where "rtol = 1 / 10 ^ 5"
definition atol :: real where "atol = 1 / 10 ^ 8"

definition allclose :: "vec \<Rightarrow> vec \<Rightarrow> bool" where
  \<comment> \<open>\<^verbatim>\<open>np.allclose(a, b)\<close> with numpy's default tolerances\<close>
  "allclose a b = list_all (\<lambda>(x, y). \<bar>x - y\<bar> \<le> atol + rtol * \<bar>y\<bar>) (zip a b)"

definition py_range :: "int \<Rightarrow> int list" where
  \<comment> \<open>\<^verbatim>\<open>range(n)\<close>\<close>
  "py_range n = [0..n - 1]"

definition is_matrix :: "nat \<Rightarrow> nat \<Rightarrow> 'a list list \<Rightarrow> bool" where
  \<comment> \<open>an array of shape \<open>(n, d)\<close>\<close>
  "is_matrix n d A = (length A = n \<and> list_all (\<lambda>r. length r = d) A)"

section \<open>LogisticRegression\<close>

definition sigmoid :: "real \<Rightarrow> real" where
  \<comment> \<open>\<^verbatim>\<open>_sigmoid\<close>, on one entry\<close>
  "sigmoid a = 1 / (1 + exp (- a))"

definition LogisticRegression_predict_proba :: "vec \<Rightarrow> mat \<Rightarrow> vec" where
  \<comment> \<open>\<^verbatim>\<open>predict_proba\<close>, reading \<^verbatim>\<open>self.w\<close>\<close>
  "LogisticRegression_predict_proba w X = map sigmoid (matvec X w)"

definition LogisticRegression_grad :: "real \<Rightarrow> mat \<Rightarrow> vec \<Rightarrow> vec \<Rightarrow> vec \<Rightarrow> vec" where
  \<comment> \<open>\<^verbatim>\<open>X.T @ (y - t) + self.alpha * w\<close>\<close>
  "LogisticRegression_grad alpha X t y w = vadd (matvec (mT X) (vsub y t)) (vscale alpha w)"

definition LogisticRegression_hessian :: "real \<Rightarrow> mat \<Rightarrow> vec \<Rightarrow> mat \<Rightarrow> mat" where
  \<comment> \<open>\<^verbatim>\<open>(X.T * y * (1 - y)) @ X + self.alpha * I\<close>\<close>
  "LogisticRegression_hessian alpha X y I =
     madd (matmul (rows_times (rows_times (mT X) y) (map (\<lambda>p. 1 - p) y)) X) (mscale alpha I)"

text \<open>
  The frame of \<^verbatim>\<open>fit\<close> while the loop runs: the loop variable \<^verbatim>\<open>i\<close>, unbound (\<open>None\<close>)
  until the first iteration assigns it, and \<^verbatim>\<open>self.w\<close>.
\<close>

record lr_frame =
  loop_i :: "int option"
  self_w :: vec

text \<open>
  One pass through the body of the \<^verbatim>\<open>for\<close> loop; the boolean says whether the pass left
  the loop by \<^verbatim>\<open>break\<close>. A failed solve breaks before \<^verbatim>\<open>self.w\<close> is assigned.
\<close>

definition LogisticRegression_body ::
  "solver \<Rightarrow> real \<Rightarrow> mat \<Rightarrow> vec \<Rightarrow> mat \<Rightarrow> int \<Rightarrow> lr_frame \<Rightarrow> lr_frame \<times> bool" where
  "LogisticRegression_body solve alpha X t I i fr =
     (let fr = fr\<lparr>loop_i := Some i\<rparr>;
          w = self_w fr;
          y = LogisticRegression_predict_proba (self_w fr) X;
          grad = LogisticRegression_grad alpha X t y w;
          hessian = LogisticRegression_hessian alpha X y I
      in case solve hessian grad of
           None \<Rightarrow> (fr, True)
         | Some delta \<Rightarrow>
             (let fr = fr\<lparr>self_w := vsub (self_w fr) delta\<rparr>
              in (fr, allclose w (self_w fr))))"

fun LogisticRegression_loop ::
  "solver \<Rightarrow> real \<Rightarrow> mat \<Rightarrow> vec \<Rightarrow> mat \<Rightarrow> int list \<Rightarrow> lr_frame \<Rightarrow> lr_frame" where
  "LogisticRegression_loop solve alpha X t I [] fr = fr"
| "LogisticRegression_loop solve alpha X t I (i # rest) fr =
     (case LogisticRegression_body solve alpha X t I i fr of
        (fr', brk) \<Rightarrow> if brk then fr' else LogisticRegression_loop solve alpha X t I rest fr')"

record LogisticRegression =
  lr_w :: vec
  lr_n_iter :: int

definition LogisticRegression_finish :: "lr_frame \<Rightarrow> py_error + LogisticRegression" where
  \<comment> \<open>\<^verbatim>\<open>self.n_iter = i + 1\<close>: reading an unbound local raises\<close>
  "LogisticRegression_finish fr =
     (case loop_i fr of
        None \<Rightarrow> Inl UnboundLocalError
      | Some i \<Rightarrow> Inr \<lparr>lr_w = self_w fr, lr_n_iter = i + 1\<rparr>)"

definition LogisticRegression_fit ::
  "solver \<Rightarrow> real \<Rightarrow> mat \<Rightarrow> vec \<Rightarrow> int \<Rightarrow> py_error + LogisticRegression" where
  "LogisticRegression_fit solve alpha X t iter_max =
     (let w0 = zeros (ncols X);
          I = eye (length w0)
      in LogisticRegression_finish
           (LogisticRegression_loop solve alpha X t I (py_range iter_max)
              \<lparr>loop_i = None, self_w = w0\<rparr>))"

text \<open>
  The same pass read off lines 136 to 145 as a function of the weights it starts from: the solve
  it makes, the weights it leaves (the old ones when the solve fails) and whether it ends
  in \<^verbatim>\<open>break\<close> (on a failed solve, or on \<^verbatim>\<open>np.allclose\<close> of the old and the new weights).
\<close>

definition LogisticRegression_solve :: "solver \<Rightarrow> real \<Rightarrow> mat \<Rightarrow> vec \<Rightarrow> vec \<Rightarrow> vec option" where
  "LogisticRegression_solve solve alpha X t w =
     (let y = LogisticRegression_predict_proba w X
      in solve (LogisticRegression_hessian alpha X y (eye (ncols X)))
               (LogisticRegression_grad alpha X t y w))"

definition LogisticRegression_pass :: "solver \<Rightarrow> real \<Rightarrow> mat \<Rightarrow> vec \<Rightarrow> vec \<Rightarrow> vec" where
  "LogisticRegression_pass solve alpha X t w =
     (case LogisticRegression_solve solve alpha X t w of
        None \<Rightarrow> w
      | Some delta \<Rightarrow> vsub w delta)"

definition LogisticRegression_stops :: "solver \<Rightarrow> real \<Rightarrow> mat \<Rightarrow> vec \<Rightarrow> vec \<Rightarrow> bool" where
  "LogisticRegression_stops solve alpha X t w =
     (case LogisticRegression_solve solve alpha X t w of
        None \<Rightarrow> True
      | Some delta \<Rightarrow> allclose w (vsub w delta))"

section \<open>MultiLogisticRegression\<close>

type_synonym ten = "real list list list"

definition dim2 :: "'a list list list \<Rightarrow> nat" where
  \<comment> \<open>\<^verbatim>\<open>np.size(H, 2)\<close> of a 3-D array\<close>
  "dim2 H = (case H of [] \<Rightarrow> 0 | Hi # _ \<Rightarrow> ncols Hi)"

definition new_axis :: "mat \<Rightarrow> ten" where
  \<comment> \<open>\<^verbatim>\<open>A[:, :, None]\<close>\<close>
  "new_axis A = map (map (\<lambda>x. [x])) A"

definition tT :: "ten \<Rightarrow> ten" where
  \<comment> \<open>\<^verbatim>\<open>H.T\<close> of a 3-D array reverses the axes: \<open>H.T[k][j][i] = H[i][j][k]\<close>\<close>
  "tT H = map (\<lambda>k. map (\<lambda>j. map (\<lambda>Hi. Hi ! j ! k) H) [0..<ncols H]) [0..<dim2 H]"

definition tscale :: "real \<Rightarrow> ten \<Rightarrow> ten" where
  "tscale c A = map (mscale c) A"

definition times_bcast :: "ten \<Rightarrow> mat \<Rightarrow> ten" where
  \<comment> \<open>\<^verbatim>\<open>A * y\<close> for \<open>A\<close> of shape \<open>(d, n, 1)\<close> and \<open>y\<close> of shape \<open>(n, K)\<close>\<close>
  "times_bcast A y = map (\<lambda>Ai. map2 (\<lambda>a yn. map (\<lambda>p. a ! 0 * p) yn) Ai y) A"

definition times_each :: "ten \<Rightarrow> mat \<Rightarrow> ten" where
  \<comment> \<open>\<^verbatim>\<open>A * z\<close> for \<open>A\<close> of shape \<open>(d, n, K)\<close> and \<open>z\<close> of shape \<open>(n, K)\<close>\<close>
  "times_each A z = map (\<lambda>Ai. map2 vmul Ai z) A"

definition plus_bcast :: "ten \<Rightarrow> ten \<Rightarrow> ten" where
  \<comment> \<open>\<^verbatim>\<open>H + B\<close> for \<open>H\<close> of shape \<open>(d, d, K)\<close> and \<open>B\<close> of shape \<open>(d, d, 1)\<close>\<close>
  "plus_bcast H B = map2 (map2 (\<lambda>h b. map (\<lambda>x. x + b ! 0) h)) H B"

definition einsum_ink_nj_ijk :: "ten \<Rightarrow> mat \<Rightarrow> ten" where
  \<comment> \<open>\<^verbatim>\<open>np.einsum('ink,nj->ijk', R, X)\<close>: the sum runs over the shared index \<open>n\<close>\<close>
  "einsum_ink_nj_ijk R X =
     map (\<lambda>Ri. map (\<lambda>j. map (\<lambda>k. sum_list (map2 (\<lambda>Rin Xn. Rin ! k * Xn ! j) Ri X))
                            [0..<ncols Ri])
                  [0..<ncols X])
         R"

definition solve_stack :: "solver \<Rightarrow> ten \<Rightarrow> mat \<Rightarrow> mat option" where
  \<comment> \<open>\<^verbatim>\<open>np.linalg.solve(a, b)\<close> on a stack of matrices and a stack of vectors: one system
      per leading index, and \<^verbatim>\<open>LinAlgError\<close> for the whole call if one of them fails\<close>
  "solve_stack solve a b = those (map2 solve a b)"

definition mallclose :: "mat \<Rightarrow> mat \<Rightarrow> bool" where
  \<comment> \<open>\<^verbatim>\<open>np.allclose\<close> on 2-D arrays\<close>
  "mallclose A B = list_all (\<lambda>(a, b). allclose a b) (zip A B)"

definition softmax_row :: "vec \<Rightarrow> vec" where
  \<comment> \<open>\<^verbatim>\<open>_softmax\<close> along the last axis; numpy's \<^verbatim>\<open>np.max\<close> raises on a zero-size axis,
      where \<open>Max\<close> of the empty set says nothing\<close>
  "softmax_row a =
     (let a_max = Max (set a);
          exp_a = map (\<lambda>x. exp (x - a_max)) a
      in map (\<lambda>e. e / sum_list exp_a) exp_a)"

definition softmax :: "mat \<Rightarrow> mat" where
  "softmax a = map softmax_row a"

definition MultiLogisticRegression_predict_proba :: "mat \<Rightarrow> mat \<Rightarrow> mat" where
  \<comment> \<open>\<^verbatim>\<open>predict_proba\<close>, reading \<^verbatim>\<open>self.w\<close>\<close>
  "MultiLogisticRegression_predict_proba w X = softmax (matmul X w)"

definition MultiLogisticRegression_grad :: "real \<Rightarrow> mat \<Rightarrow> mat \<Rightarrow> mat \<Rightarrow> mat \<Rightarrow> mat" where
  \<comment> \<open>\<^verbatim>\<open>X.T @ (y - T) + self.alpha * w\<close>\<close>
  "MultiLogisticRegression_grad alpha X T y w = madd (matmul (mT X) (msub y T)) (mscale alpha w)"

definition MultiLogisticRegression_hessian :: "real \<Rightarrow> mat \<Rightarrow> mat \<Rightarrow> ten \<Rightarrow> ten" where
  \<comment> \<open>\<^verbatim>\<open>np.einsum('ink,nj->ijk', X.T[:, :, None] * y * (1 - y), X) + self.alpha * I\<close>\<close>
  "MultiLogisticRegression_hessian alpha X y I =
     plus_bcast
       (einsum_ink_nj_ijk
          (times_each (times_bcast (new_axis (mT X)) y) (map (map (\<lambda>p. 1 - p)) y)) X)
       (tscale alpha I)"

record mlr_frame =
  mloop_i :: "int option"
  mself_w :: mat

definition MultiLogisticRegression_body ::
  "solver \<Rightarrow> real \<Rightarrow> mat \<Rightarrow> mat \<Rightarrow> ten \<Rightarrow> int \<Rightarrow> mlr_frame \<Rightarrow> mlr_frame \<times> bool" where
  "MultiLogisticRegression_body solve alpha X T I i fr =
     (let fr = fr\<lparr>mloop_i := Some i\<rparr>;
          w = mself_w fr;
          y = MultiLogisticRegression_predict_proba (mself_w fr) X;
          grad = MultiLogisticRegression_grad alpha X T y w;
          hessian = MultiLogisticRegression_hessian alpha X y I
      in case solve_stack solve (tT hessian) (mT grad) of
           None \<Rightarrow> (fr, True)
         | Some delta \<Rightarrow>
             (let fr = fr\<lparr>mself_w := msub (mself_w fr) (mT delta)\<rparr>
              in (fr, mallclose w (mself_w fr))))"

fun MultiLogisticRegression_loop ::
  "solver \<Rightarrow> real \<Rightarrow> mat \<Rightarrow> mat \<Rightarrow> ten \<Rightarrow> int list \<Rightarrow> mlr_frame \<Rightarrow> mlr_frame" where
  "MultiLogisticRegression_loop solve alpha X T I [] fr = fr"
| "MultiLogisticRegression_loop solve alpha X T I (i # rest) fr =
     (case MultiLogisticRegression_body solve alpha X T I i fr of
        (fr', brk) \<Rightarrow>
          if brk then fr' else MultiLogisticRegression_loop solve alpha X T I rest fr')"

record MultiLogisticRegression =
  mlr_w :: mat
  mlr_n_iter :: int

definition MultiLogisticRegression_finish :: "mlr_frame \<Rightarrow> py_error + MultiLogisticRegression" where
  "MultiLogisticRegression_finish fr =
     (case mloop_i fr of
        None \<Rightarrow> Inl UnboundLocalError
      | Some i \<Rightarrow> Inr \<lparr>mlr_w = mself_w fr, mlr_n_iter = i + 1\<rparr>)"

definition eye_rows :: "int \<Rightarrow> int list \<Rightarrow> py_error + mat" where
  \<comment> \<open>\<^verbatim>\<open>np.eye(n_classes)[t]\<close>: a negative size is refused, an index must lie in
      \<open>[-n_classes, n_classes)\<close>, and a negative index counts from the end\<close>
  "eye_rows n_classes t =
     (if n_classes < 0 then Inl ValueError
      else if list_ex (\<lambda>k. k < - n_classes \<or> n_classes \<le> k) t then Inl IndexError
      else Inr (map (\<lambda>k. eye (nat n_classes) ! nat (if k < 0 then k + n_classes else k)) t))"

definition MultiLogisticRegression_fit ::
  "solver \<Rightarrow> real \<Rightarrow> mat \<Rightarrow> int list \<Rightarrow> int \<Rightarrow> py_error + MultiLogisticRegression" where
  "MultiLogisticRegression_fit solve alpha X t iter_max =
     (if t = [] then Inl ValueError
      else
        let n_classes = Max (set t) + 1
        in case eye_rows n_classes t of
             Inl e \<Rightarrow> Inl e
           | Inr T \<Rightarrow>
               (let w0 = replicate (ncols X) (replicate (nat n_classes) 0);
                    I = new_axis (eye (length w0))
                in MultiLogisticRegression_finish
                     (MultiLogisticRegression_loop solve alpha X T I (py_range iter_max)
                        \<lparr>mloop_i = None, mself_w = w0\<rparr>)))"

section \<open>BayesianLogisticRegression\<close>

record BayesianLogisticRegression = LogisticRegression +
  w_cov :: mat

definition BayesianLogisticRegression_fit ::
  "solver \<Rightarrow> inverter \<Rightarrow> real \<Rightarrow> mat \<Rightarrow> vec \<Rightarrow> int \<Rightarrow> py_error + BayesianLogisticRegression" where
  "BayesianLogisticRegression_fit solve linalg_inv alpha X t iter_max =
     (case LogisticRegression_fit solve alpha X t iter_max of
        Inl e \<Rightarrow> Inl e
      | Inr r \<Rightarrow>
          (let y = LogisticRegression_predict_proba (lr_w r) X;
               hessian = madd (matmul (matmul (mT X) (diag (vmul y (map (\<lambda>p. 1 - p) y)))) X)
                              (mscale alpha (eye (length (lr_w r))))
           in case linalg_inv hessian of
                None \<Rightarrow> Inl LinAlgError
              | Some c \<Rightarrow> Inr \<lparr>lr_w = lr_w r, lr_n_iter = lr_n_iter r, w_cov = c\<rparr>))"

definition predict_dist :: "BayesianLogisticRegression \<Rightarrow> mat \<Rightarrow> vec" where
  "predict_dist self X =
     (let mu_a = matvec X (lr_w self);
          var_a = map sum_list (map2 vmul (matmul X (w_cov self)) X)
      in map sigmoid (map2 (\<lambda>m v. m / sqrt (1 + pi * v / 8)) mu_a var_a))"

section \<open>GaussianProcessClassifier\<close>

datatype ndarray = Array1 vec | Array2 mat

fun as_columns :: "ndarray \<Rightarrow> mat" where
  \<comment> \<open>\<^verbatim>\<open>if X.ndim == 1: X = X[:, None]\<close>\<close>
  "as_columns (Array1 v) = map (\<lambda>x. [x]) v"
| "as_columns (Array2 m) = m"

type_synonym kernel = "ten \<Rightarrow> ten \<Rightarrow> mat"

definition pairwise :: "mat \<Rightarrow> mat \<Rightarrow> ten \<times> ten" where
  \<comment> \<open>\<^verbatim>\<open>_pairwise\<close>: both results have shape \<open>(len(x), len(y), d)\<close>\<close>
  "pairwise x y = (map (\<lambda>xi. replicate (length y) xi) x, replicate (length x) y)"

record GaussianProcessClassifier =
  gp_X :: mat
  gp_t :: vec
  covariance :: mat
  precision :: mat

definition GaussianProcessClassifier_fit ::
  "inverter \<Rightarrow> kernel \<Rightarrow> real \<Rightarrow> ndarray \<Rightarrow> vec \<Rightarrow> py_error + GaussianProcessClassifier" where
  "GaussianProcessClassifier_fit linalg_inv kernel_fn nu X t =
     (let X = as_columns X;
          Gram = (case pairwise X X of (a, b) \<Rightarrow> kernel_fn a b);
          cov = madd Gram (mscale nu (eye (length Gram)))
      in case linalg_inv cov of
           None \<Rightarrow> Inl LinAlgError
         | Some prec \<Rightarrow> Inr \<lparr>gp_X = X, gp_t = t, covariance = cov, precision = prec\<rparr>)"

definition GaussianProcessClassifier_predict ::
  "kernel \<Rightarrow> GaussianProcessClassifier \<Rightarrow> ndarray \<Rightarrow> vec" where
  "GaussianProcessClassifier_predict kernel_fn self X =
     (let X = as_columns X;
          K = (case pairwise X (gp_X self) of (a, b) \<Rightarrow> kernel_fn a b);
          a_mean = matvec (matmul K (precision self)) (gp_t self)
      in map sigmoid a_mean)"

section \<open>LinearDiscriminantAnalysis\<close>

text \<open>
  \<^verbatim>\<open>distributions.Gaussian\<close> is imported, not defined, by \<^verbatim>\<open>classifications.py\<close>: the
  constructor is a parameter of the model, and \<^verbatim>\<open>fit\<close> reads the two attributes below.
\<close>

record Gaussian =
  mean :: real
  var :: real

definition select_rows :: "mat \<Rightarrow> int list \<Rightarrow> int \<Rightarrow> mat" where
  \<comment> \<open>\<^verbatim>\<open>X[t == c]\<close>\<close>
  "select_rows X t c = map fst (filter (\<lambda>(x, l). l = c) (zip X t))"

definition col_mean :: "mat \<Rightarrow> vec" where
  \<comment> \<open>\<^verbatim>\<open>np.mean(X, axis=0)\<close>\<close>
  "col_mean X = map (\<lambda>c. sum_list c / real (length c)) (mT X)"

definition rows_minus :: "mat \<Rightarrow> vec \<Rightarrow> mat" where
  \<comment> \<open>\<^verbatim>\<open>X - m\<close> with \<open>m\<close> broadcast over the rows\<close>
  "rows_minus X m = map (\<lambda>r. vsub r m) X"

definition norm2 :: "vec \<Rightarrow> real" where
  \<comment> \<open>\<^verbatim>\<open>np.linalg.norm\<close> of a 1-D array\<close>
  "norm2 v = sqrt (sum_list (map (\<lambda>x. \<bar>x\<bar> ^ 2) v))"

definition gram :: "nat \<Rightarrow> mat \<Rightarrow> mat" where
  \<comment> \<open>\<^verbatim>\<open>A.T @ A\<close> for \<open>A\<close> of shape \<open>(n, d)\<close>: with no rows it is the zero matrix of shape
      \<open>(d, d)\<close>, which the empty list of rows cannot tell\<close>
  "gram d A = (if A = [] then replicate d (replicate d 0) else matmul (mT A) A)"

record LinearDiscriminantAnalysis =
  lda_w :: vec
  threshold :: real

text \<open>
  numpy does not raise on a division by zero, on the logarithm of a number that is not positive
  or on the square root of a negative number: it warns, yields \<^verbatim>\<open>nan\<close> or \<^verbatim>\<open>inf\<close> and goes on, and
  every value computed from that one is \<^verbatim>\<open>nan\<close> or \<^verbatim>\<open>inf\<close> in turn. \<open>NotFinite\<close> stands for a
  call that returns with such values in what it stores; \<open>Finite\<close> carries the numbers of a
  call whose intermediate values are all numbers.
\<close>

datatype 'a np_result = Finite 'a | NotFinite

definition LinearDiscriminantAnalysis_estimate ::
  "inverter \<Rightarrow> (vec \<Rightarrow> Gaussian) \<Rightarrow> mat \<Rightarrow> int list
     \<Rightarrow> py_error + LinearDiscriminantAnalysis np_result" where
  \<comment> \<open>the body of \<^verbatim>\<open>fit\<close> below its assertion. \<^verbatim>\<open>np.mean\<close> of a class without samples is
      \<^verbatim>\<open>nan\<close>; the scatter of that class is still the zero matrix, so \<^verbatim>\<open>np.linalg.inv\<close> is
      called on numbers. The threshold is \<^verbatim>\<open>nan\<close> or \<^verbatim>\<open>inf\<close> when \<^verbatim>\<open>g0.var\<close> is zero, when the
      logarithm's argument is not positive, when \<open>b ** 2 - a * c\<close> is negative and when \<open>a\<close> is
      zero.\<close>
  "LinearDiscriminantAnalysis_estimate linalg_inv Gaussian_of X t =
     (let X0 = select_rows X t 0;
          X1 = select_rows X t 1;
          m0 = col_mean X0;
          m1 = col_mean X1;
          cov_inclass = madd (gram (ncols X) (rows_minus X0 m0))
                             (gram (ncols X) (rows_minus X1 m1))
      in case linalg_inv cov_inclass of
           None \<Rightarrow> Inl LinAlgError
         | Some cov_inv \<Rightarrow>
             if X0 = [] \<or> X1 = [] then Inr NotFinite
             else
               (let w = matvec cov_inv (vsub m1 m0);
                    w = map (\<lambda>x. x / max (norm2 w) (1 / 10 ^ 10)) w;
                    g0 = Gaussian_of (matvec X0 w);
                    g1 = Gaussian_of (matvec X1 w);
                    a = var g1 - var g0;
                    b = var g0 * mean g1 - var g1 * mean g0
                in if var g0 = 0 \<or> var g1 / var g0 \<le> 0 then Inr NotFinite
                   else
                     (let c = var g1 * mean g0 ^ 2 - var g0 * mean g1 ^ 2
                              - var g1 * var g0 * ln (var g1 / var g0)
                      in if b ^ 2 - a * c < 0 \<or> a = 0 then Inr NotFinite
                         else Inr (Finite \<lparr>lda_w = w,
                                           threshold = (sqrt (b ^ 2 - a * c) - b) / a\<rparr>))))"

definition LinearDiscriminantAnalysis_fit ::
  "inverter \<Rightarrow> (vec \<Rightarrow> Gaussian) \<Rightarrow> mat \<Rightarrow> int list
     \<Rightarrow> py_error + LinearDiscriminantAnalysis np_result" where
  \<comment> \<open>\<^verbatim>\<open>assert np.max(t) + 1 == 2\<close> comes first; \<^verbatim>\<open>np.max\<close> of an empty array raises\<close>
  "LinearDiscriminantAnalysis_fit linalg_inv Gaussian_of X t =
     (if t = [] then Inl ValueError
      else if Max (set t) + 1 \<noteq> 2 then Inl AssertionError
      else LinearDiscriminantAnalysis_estimate linalg_inv Gaussian_of X t)"

section \<open>Contracts of the backend, and small backends to run the model\<close>

text \<open>
  What numpy documents for its two primitives: a solution returned by \<^verbatim>\<open>np.linalg.solve\<close> has
  the shape of the right-hand side and satisfies the system, and a matrix returned by
  \<^verbatim>\<open>np.linalg.inv\<close> is a two-sided inverse of the same shape.
\<close>

definition solver_sound :: "solver \<Rightarrow> bool" where
  "solver_sound solve =
     (\<forall>H g delta. solve H g = Some delta \<longrightarrow> length delta = length g \<and> matvec H delta = g)"

definition inverter_sound :: "inverter \<Rightarrow> bool" where
  "inverter_sound linalg_inv =
     (\<forall>A P. linalg_inv A = Some P \<longrightarrow>
        is_matrix (length A) (length A) P
        \<and> matmul A P = eye (length A) \<and> matmul P A = eye (length A))"

fun solve_1x1 :: solver where
  "solve_1x1 [[h]] [b] = (if h = 0 then None else Some [b / h])"
| "solve_1x1 H g = None"

fun inv_1x1 :: inverter where
  "inv_1x1 [[h]] = (if h = 0 then None else Some [[1 / h]])"
| "inv_1x1 A = None"

definition dot_kernel :: kernel where
  \<comment> \<open>the linear kernel, entry by entry on the two arrays of pairs\<close>
  "dot_kernel a b = map2 (map2 dot) a b"

definition Gaussian_summary :: "vec \<Rightarrow> Gaussian" where
  \<comment> \<open>Modelled from the spec: \<^verbatim>\<open>distributions.Gaussian\<close> is not among the sources; the
      specification describes it as exposing the mean and the population variance of a
      sample vector.\<close>
  "Gaussian_summary xs =
     (let m = sum_list xs / real (length xs)
      in \<lparr>mean = m, var = sum_list (map (\<lambda>x. (x - m) ^ 2) xs) / real (length xs)\<rparr>)"

section \<open>The formulas of the specification\<close>

definition irls_gradient :: "real \<Rightarrow> mat \<Rightarrow> vec \<Rightarrow> vec \<Rightarrow> vec \<Rightarrow> vec" where
  \<comment> \<open>gradient = X.T (y - t) + alpha w\<close>
  "irls_gradient alpha X t y w = vadd (matvec (mT X) (vsub y t)) (vscale alpha w)"

definition irls_hessian :: "real \<Rightarrow> mat \<Rightarrow> vec \<Rightarrow> mat" where
  \<comment> \<open>Hessian = X.T diag(y (1 - y)) X + alpha I\<close>
  "irls_hessian alpha X y =
     madd (matmul (matmul (mT X) (diag (map (\<lambda>p. p * (1 - p)) y))) X)
          (mscale alpha (eye (ncols X)))"

definition quad_form :: "mat \<Rightarrow> vec \<Rightarrow> real" where
  \<comment> \<open>the quadratic form x.T C x\<close>
  "quad_form C x = dot x (matvec C x)"

definition positive_semidefinite :: "mat \<Rightarrow> bool" where
  "positive_semidefinite C = (\<forall>x. length x = length C \<longrightarrow> 0 \<le> quad_form C x)"

definition kernel_sound :: "kernel \<Rightarrow> bool" where
  \<comment> \<open>the kernel's contract: one entry for every pair, so a result of shape
      \<open>(len(x), len(y))\<close> on the two arrays \<^verbatim>\<open>_pairwise(x, y)\<close> builds\<close>
  "kernel_sound kernel_fn =
     (\<forall>x y. is_matrix (length x) (length y)
              (kernel_fn (fst (pairwise x y)) (snd (pairwise x y))))"

definition outer :: "vec \<Rightarrow> mat" where
  \<comment> \<open>the outer product v v.T\<close>
  "outer v = map (\<lambda>a. map (\<lambda>b. a * b) v) v"

definition scatter :: "mat \<Rightarrow> vec \<Rightarrow> mat" where
  \<comment> \<open>the scatter of a class around its mean: the sum over its samples x of
      (x - m)(x - m).T\<close>
  "scatter Xc m =
     foldr (\<lambda>x S. madd (outer (vsub x m)) S) Xc (replicate (length m) (replicate (length m) 0))"

definition unit_direction :: "vec \<Rightarrow> vec" where
  \<comment> \<open>a vector divided by its norm, the norm clipped below at 1e-10\<close>
  "unit_direction v = map (\<lambda>x. x / max (norm2 v) (1 / 10 ^ 10)) v"

definition lda_threshold :: "Gaussian \<Rightarrow> Gaussian \<Rightarrow> real" where
  \<comment> \<open>threshold = (sqrt(b^2 - a c) - b) / a with a = var1 - var0,
      b = var0 mean1 - var1 mean0, c = var1 mean0^2 - var0 mean1^2 - var1 var0 ln(var1 / var0)\<close>
  "lda_threshold g0 g1 =
     (let a = var g1 - var g0;
          b = var g0 * mean g1 - var g1 * mean g0;
          c = var g1 * (mean g0)\<^sup>2 - var g0 * (mean g1)\<^sup>2 - var g1 * var g0 * ln (var g1 / var g0)
      in (sqrt (b\<^sup>2 - a * c) - b) / a)"

definition lda_finite :: "Gaussian \<Rightarrow> Gaussian \<Rightarrow> bool" where
  \<comment> \<open>where that formula is a number: the variances are not zero and of one sign, so that
      var1 / var0 has a logarithm, b^2 - a c is not negative, and a is not zero\<close>
  "lda_finite g0 g1 =
     (let a = var g1 - var g0;
          b = var g0 * mean g1 - var g1 * mean g0;
          c = var g1 * (mean g0)\<^sup>2 - var g0 * (mean g1)\<^sup>2 - var g1 * var g0 * ln (var g1 / var g0)
      in var g0 \<noteq> 0 \<and> 0 < var g1 / var g0 \<and> 0 \<le> b\<^sup>2 - a * c \<and> a \<noteq> 0)"

definition gram_entries :: "nat \<Rightarrow> mat \<Rightarrow> mat" where
  \<comment> \<open>entry \<open>(i, j)\<close> is the sum over the rows \<open>x\<close> of \<open>x ! i * x ! j\<close>\<close>
  "gram_entries d A =
     map (\<lambda>i. map (\<lambda>j. sum_list (map (\<lambda>x. x ! i * x ! j) A)) [0..<d]) [0..<d]"

definition hess_entry :: "real \<Rightarrow> mat \<Rightarrow> mat \<Rightarrow> nat \<Rightarrow> nat \<Rightarrow> nat \<Rightarrow> real" where
  \<comment> \<open>entry \<open>(i, j)\<close> of the block of class \<open>k\<close>, written as a sum over the samples\<close>
  "hess_entry alpha X y i j k =
     (\<Sum>m<length X. X ! m ! i * (y ! m ! k * (1 - y ! m ! k)) * X ! m ! j)
     + alpha * (if i = j then 1 else 0)"

section \<open>Properties: arrays\<close>

lemmas array_defs = ncols_def dim2_def zeros_def eye_def mT_def dot_def matvec_def matmul_def
  vadd_def vsub_def vmul_def vscale_def madd_def msub_def mscale_def rows_times_def diag_def
  new_axis_def tT_def tscale_def times_bcast_def times_each_def plus_bcast_def
  einsum_ink_nj_ijk_def

lemma dot_nth: "length u = length v \<Longrightarrow> dot u v = (\<Sum>k<length u. u ! k * v ! k)"
proof -
  assume l: "length u = length v"
  have "sum_list (map2 (*) u v) = (\<Sum>k = 0..<length (map2 (*) u v). map2 (*) u v ! k)"
    by (rule sum_list_sum_nth)
  also have "\<dots> = (\<Sum>k = 0..<length u. u ! k * v ! k)"
    using l by (intro sum.cong) auto
  finally show ?thesis by (simp add: dot_def atLeast0LessThan)
qed

lemma ncols_map_upt: "0 < n \<Longrightarrow> ncols (map f [0..<n]) = length (f 0)"
  by (cases n) (simp_all add: ncols_def upt_conv_Cons del: upt_Suc)

lemma mT_diag: "mT (diag v) = diag v"
proof (cases "length v = 0")
  case True
  then show ?thesis by (simp add: mT_def diag_def ncols_def)
next
  case False
  then have n: "0 < length v" by simp
  have nc: "ncols (diag v) = length v"
    unfolding diag_def by (simp add: ncols_map_upt [OF n])
  show ?thesis
    unfolding mT_def nc
    by (auto simp: diag_def intro!: nth_equalityI)
qed

lemma dot_unit:
  assumes "length r = n" "i < n"
  shows "dot r (map (\<lambda>j. if i = j then c else 0) [0..<n]) = r ! i * c"
proof -
  have "dot r (map (\<lambda>j. if i = j then c else 0) [0..<n])
        = (\<Sum>k<n. r ! k * (if i = k then c else 0))"
    using assms by (simp add: dot_nth)
  also have "\<dots> = (\<Sum>k<n. if k = i then r ! i * c else 0)"
    by (intro sum.cong) auto
  also have "\<dots> = r ! i * c"
    using assms by simp
  finally show ?thesis .
qed

lemma matmul_diag:
  assumes "list_all (\<lambda>r. length r = length v) A"
  shows "matmul A (diag v) = rows_times A v"
proof -
  have "map (dot r) (diag v) = vmul r v" if "length r = length v" for r
    using that by (auto simp: diag_def vmul_def dot_unit intro!: nth_equalityI)
  then show ?thesis
    using assms by (simp add: matmul_def rows_times_def mT_diag list_all_iff)
qed

lemma rows_times_twice: "rows_times (rows_times A u) v = rows_times A (vmul u v)"
proof -
  have "vmul (vmul r u) v = vmul r (vmul u v)" for r
    by (auto simp: vmul_def intro!: nth_equalityI)
  then show ?thesis by (simp add: rows_times_def)
qed

lemma vmul_one_minus: "vmul y (map (\<lambda>p. 1 - p) y) = map (\<lambda>p. p * (1 - p)) y"
  by (auto simp: vmul_def intro!: nth_equalityI)

lemma is_matrix_mT: "is_matrix n d X \<Longrightarrow> list_all (\<lambda>r. length r = n) (mT X)"
  by (simp add: is_matrix_def mT_def list_all_iff)

lemma py_range_nonpos: "n \<le> 0 \<Longrightarrow> py_range n = []"
  by (simp add: py_range_def)

lemma py_range_Suc: "py_range (int (Suc m)) = py_range (int m) @ [int m]"
  by (simp add: py_range_def upto_rec2)

lemma set_py_range: "set (py_range n) = {0..n - 1}"
  by (simp add: py_range_def)

lemma solve_1x1_sound: "solver_sound solve_1x1"
  unfolding solver_sound_def
proof (intro allI impI)
  fix H g delta
  assume "solve_1x1 H g = Some delta"
  then show "length delta = length g \<and> matvec H delta = g"
    by (induction H g rule: solve_1x1.induct) (auto simp: matvec_def dot_def split: if_splits)
qed

section \<open>Properties: LogisticRegression\<close>

lemma body_loop_i: "loop_i (fst (LogisticRegression_body solve alpha X t I i fr)) = Some i"
  by (simp add: LogisticRegression_body_def Let_def split: option.splits)

lemma loop_snoc:
  "LogisticRegression_loop solve alpha X t I (xs @ [j]) fr
     = LogisticRegression_loop solve alpha X t I xs fr
   \<or> loop_i (LogisticRegression_loop solve alpha X t I (xs @ [j]) fr) = Some j"
proof (induction xs arbitrary: fr)
  case Nil
  show ?case using body_loop_i [of solve alpha X t I j fr]
    by (cases "LogisticRegression_body solve alpha X t I j fr") auto
next
  case (Cons x xs)
  then show ?case by (simp split: prod.splits)
qed

lemma loop_i_in_set:
  "xs \<noteq> [] \<Longrightarrow> \<exists>i\<in>set xs. loop_i (LogisticRegression_loop solve alpha X t I xs fr) = Some i"
proof (induction xs arbitrary: fr)
  case Nil
  then show ?case by simp
next
  case (Cons x xs)
  obtain fr' brk where b: "LogisticRegression_body solve alpha X t I x fr = (fr', brk)"
    by (cases "LogisticRegression_body solve alpha X t I x fr")
  have i: "loop_i fr' = Some x" using body_loop_i [of solve alpha X t I x fr] b by simp
  show ?case
  proof (cases "brk \<or> xs = []")
    case True
    then show ?thesis using b i by auto
  next
    case False
    then show ?thesis using b Cons.IH [of fr'] by auto
  qed
qed

lemma loop_prefix:
  "loop_i fr = None \<Longrightarrow>
   loop_i (LogisticRegression_loop solve alpha X t I (py_range (int m)) fr) = Some i \<Longrightarrow>
   LogisticRegression_loop solve alpha X t I (py_range (i + 1)) fr
     = LogisticRegression_loop solve alpha X t I (py_range (int m)) fr"
proof (induction m)
  case 0
  then show ?case by (simp add: py_range_def)
next
  case (Suc m)
  let ?L = "LogisticRegression_loop solve alpha X t I"
  from loop_snoc [of solve alpha X t I "py_range (int m)" "int m" fr]
  consider (a) "?L (py_range (int (Suc m))) fr = ?L (py_range (int m)) fr"
    | (b) "loop_i (?L (py_range (int (Suc m))) fr) = Some (int m)"
    unfolding py_range_Suc by blast
  then show ?case
  proof cases
    case a
    then show ?thesis using Suc by simp
  next
    case b
    then have "i = int m" using Suc.prems by simp
    then show ?thesis by (simp add: add.commute)
  qed
qed

lemma hessian_spec:
  assumes "is_matrix n d X" "length y = n"
  shows "LogisticRegression_hessian alpha X y (eye (ncols X)) = irls_hessian alpha X y"
proof -
  have "list_all (\<lambda>r. length r = length (map (\<lambda>p. p * (1 - p)) y)) (mT X)"
    using is_matrix_mT [OF assms(1)] assms(2) by simp
  then have "matmul (mT X) (diag (map (\<lambda>p. p * (1 - p)) y))
             = rows_times (mT X) (map (\<lambda>p. p * (1 - p)) y)"
    by (rule matmul_diag)
  then show ?thesis
    by (simp add: LogisticRegression_hessian_def irls_hessian_def rows_times_twice vmul_one_minus)
qed

text \<open>
  C1. In every pass through the loop of \<^verbatim>\<open>LogisticRegression.fit\<close>, on a feature matrix of
  shape \<open>(n, d)\<close>: with \<open>y = sigmoid (X w)\<close>, the pass hands the solver the Hessian
  \<^verbatim>\<open>X.T diag(y (1 - y)) X + alpha I\<close> and the gradient \<^verbatim>\<open>X.T (y - t) + alpha w\<close>; when the solver
  answers \<open>delta\<close>, that \<open>delta\<close> satisfies \<open>Hessian delta = gradient\<close> and the pass leaves
  \<open>w - delta\<close> in \<^verbatim>\<open>self.w\<close>; when it fails, the pass leaves \<^verbatim>\<open>self.w\<close> alone and breaks.
\<close>

theorem LogisticRegression_iteration:
  assumes "is_matrix n d X" and "solver_sound solve"
  shows "let w = self_w fr;
             y = map sigmoid (matvec X w);
             gradient = irls_gradient alpha X t y w;
             Hessian = irls_hessian alpha X y
         in LogisticRegression_body solve alpha X t (eye (ncols X)) i fr =
              (case solve Hessian gradient of
                 None \<Rightarrow> (fr\<lparr>loop_i := Some i\<rparr>, True)
               | Some delta \<Rightarrow>
                   (fr\<lparr>loop_i := Some i, self_w := vsub w delta\<rparr>, allclose w (vsub w delta)))
            \<and> (\<forall>delta. solve Hessian gradient = Some delta \<longrightarrow> matvec Hessian delta = gradient)"
proof -
  have len: "length (map sigmoid (matvec X (self_w fr))) = n"
    using assms(1) by (simp add: matvec_def is_matrix_def)
  note h = hessian_spec [OF assms(1) len, of alpha]
  show ?thesis
    using assms(2) h
    by (auto simp: Let_def LogisticRegression_body_def LogisticRegression_predict_proba_def
        LogisticRegression_grad_def irls_gradient_def solver_sound_def split: option.splits)
qed

theorem LogisticRegression_iteration_witness:
  "is_matrix 1 1 [[1]] \<and> solver_sound solve_1x1 \<and>
   LogisticRegression_body solve_1x1 0 [[1]] [1] (eye (ncols [[1::real]])) 0
       \<lparr>loop_i = None, self_w = [0]\<rparr>
     = (\<lparr>loop_i = Some 0, self_w = [2]\<rparr>, False)"
  using LogisticRegression_iteration
          [of 1 1 "[[1]]" solve_1x1 "\<lparr>loop_i = None, self_w = [0]\<rparr>" 0 "[1]" 0]
    solve_1x1_sound
  by (simp add: is_matrix_def Let_def irls_hessian_def irls_gradient_def matvec_def matmul_def
      dot_def mT_def ncols_def diag_def eye_def sigmoid_def vadd_def vsub_def vscale_def madd_def
      mscale_def allclose_def atol_def rtol_def)

lemma body_pass:
  "LogisticRegression_body solve alpha X t (eye (ncols X)) i fr
   = (fr\<lparr>loop_i := Some i, self_w := LogisticRegression_pass solve alpha X t (self_w fr)\<rparr>,
      LogisticRegression_stops solve alpha X t (self_w fr))"
  by (simp add: LogisticRegression_body_def LogisticRegression_pass_def
      LogisticRegression_stops_def LogisticRegression_solve_def Let_def split: option.splits)

lemma loop_passes:
  "xs \<noteq> [] \<Longrightarrow>
   \<exists>j<length xs.
      loop_i (LogisticRegression_loop solve alpha X t (eye (ncols X)) xs fr) = Some (xs ! j)
    \<and> self_w (LogisticRegression_loop solve alpha X t (eye (ncols X)) xs fr)
        = (LogisticRegression_pass solve alpha X t ^^ Suc j) (self_w fr)
    \<and> (\<forall>k<j. \<not> LogisticRegression_stops solve alpha X t
                  ((LogisticRegression_pass solve alpha X t ^^ k) (self_w fr)))
    \<and> (Suc j < length xs \<longrightarrow>
          LogisticRegression_stops solve alpha X t
            ((LogisticRegression_pass solve alpha X t ^^ j) (self_w fr)))"
proof (induction xs arbitrary: fr)
  case Nil
  then show ?case by simp
next
  case (Cons x xs)
  let ?P = "LogisticRegression_pass solve alpha X t"
  let ?S = "LogisticRegression_stops solve alpha X t"
  let ?L = "LogisticRegression_loop solve alpha X t (eye (ncols X))"
  let ?fr1 = "fr\<lparr>loop_i := Some x, self_w := ?P (self_w fr)\<rparr>"
  note b = body_pass [of solve alpha X t x fr]
  show ?case
  proof (cases "?S (self_w fr) \<or> xs = []")
    case True
    then have "?L (x # xs) fr = ?fr1" using b by auto
    then show ?thesis using True by (intro exI [of _ 0]) auto
  next
    case False
    then have ne: "xs \<noteq> []" and ns: "\<not> ?S (self_w fr)" by simp_all
    have eq: "?L (x # xs) fr = ?L xs ?fr1" using b ns by simp
    from Cons.IH [OF ne, of ?fr1] obtain j where j: "j < length xs"
      and i: "loop_i (?L xs ?fr1) = Some (xs ! j)"
      and w: "self_w (?L xs ?fr1) = (?P ^^ Suc j) (?P (self_w fr))"
      and no: "\<And>k. k < j \<Longrightarrow> \<not> ?S ((?P ^^ k) (?P (self_w fr)))"
      and st: "Suc j < length xs \<Longrightarrow> ?S ((?P ^^ j) (?P (self_w fr)))"
      by auto
    have no': "\<not> ?S ((?P ^^ k) (self_w fr))" if "k < Suc j" for k
    proof (cases k)
      case 0
      then show ?thesis using ns by simp
    next
      case (Suc k')
      then show ?thesis using no [of k'] that by (simp add: funpow_swap1)
    qed
    show ?thesis
    proof (intro exI [of _ "Suc j"] conjI allI impI)
      show "Suc j < length (x # xs)" using j by simp
      show "loop_i (?L (x # xs) fr) = Some ((x # xs) ! Suc j)" using eq i by simp
      show "self_w (?L (x # xs) fr) = (?P ^^ Suc (Suc j)) (self_w fr)"
        using eq w by (simp add: funpow_swap1)
      show "\<not> ?S ((?P ^^ k) (self_w fr))" if "k < Suc j" for k using no' [OF that] .
      show "?S ((?P ^^ Suc j) (self_w fr))" if "Suc (Suc j) < length (x # xs)"
        using st that by (simp add: funpow_swap1)
    qed
  qed
qed

lemma py_range_nth: "j < length (py_range m) \<Longrightarrow> py_range m ! j = int j"
  by (simp add: py_range_def nth_upto)

lemma length_py_range: "length (py_range m) = nat m"
  by (simp add: py_range_def)

text \<open>
  C8. A call of \<^verbatim>\<open>LogisticRegression.fit\<close> with \<open>iter_max \<ge> 1\<close> returns, with
  \<open>1 \<le> n_iter \<le> iter_max\<close>. The loop has made exactly \<open>n_iter\<close> passes: the weights returned are
  the zero vector after \<open>n_iter\<close> passes, and the same call capped at \<open>n_iter\<close> returns the same
  result. No pass before the last one met a failed solve or \<^verbatim>\<open>np.allclose\<close>, and when
  \<open>n_iter < iter_max\<close> the last pass did: so \<open>n_iter\<close> is the 1-based index of the first pass
  with a failed solve or with converged weights, and \<open>iter_max\<close> when there is none.
\<close>

theorem LogisticRegression_fit_n_iter:
  assumes "1 \<le> iter_max"
  shows "\<exists>r. LogisticRegression_fit solve alpha X t iter_max = Inr r
             \<and> 1 \<le> lr_n_iter r \<and> lr_n_iter r \<le> iter_max
             \<and> LogisticRegression_fit solve alpha X t (lr_n_iter r) = Inr r
             \<and> lr_w r = (LogisticRegression_pass solve alpha X t ^^ nat (lr_n_iter r))
                          (zeros (ncols X))
             \<and> (\<forall>k < nat (lr_n_iter r) - 1.
                   \<not> LogisticRegression_stops solve alpha X t
                       ((LogisticRegression_pass solve alpha X t ^^ k) (zeros (ncols X))))
             \<and> (lr_n_iter r < iter_max \<longrightarrow>
                   LogisticRegression_stops solve alpha X t
                     ((LogisticRegression_pass solve alpha X t ^^ (nat (lr_n_iter r) - 1))
                        (zeros (ncols X))))"
proof -
  let ?P = "LogisticRegression_pass solve alpha X t"
  let ?S = "LogisticRegression_stops solve alpha X t"
  let ?w0 = "zeros (ncols X)"
  let ?fr0 = "\<lparr>loop_i = None, self_w = ?w0\<rparr>"
  let ?L = "\<lambda>m. LogisticRegression_loop solve alpha X t (eye (ncols X)) (py_range m) ?fr0"
  have ne: "py_range iter_max \<noteq> []" using assms by (simp add: py_range_def)
  from loop_passes [OF ne, of solve alpha X t ?fr0]
  obtain j where j: "j < nat iter_max"
    and li: "loop_i (?L iter_max) = Some (int j)"
    and w: "self_w (?L iter_max) = (?P ^^ Suc j) ?w0"
    and no: "\<And>k. k < j \<Longrightarrow> \<not> ?S ((?P ^^ k) ?w0)"
    and st: "Suc j < nat iter_max \<Longrightarrow> ?S ((?P ^^ j) ?w0)"
    by (auto simp: length_py_range py_range_nth)
  have "loop_i (?L (int (nat iter_max))) = Some (int j)" using li assms by simp
  then have "?L (int j + 1) = ?L (int (nat iter_max))"
    by (intro loop_prefix) simp_all
  then have pre: "?L (int j + 1) = ?L iter_max" using assms by simp
  let ?r = "\<lparr>lr_w = self_w (?L iter_max), lr_n_iter = int j + 1\<rparr>"
  have f: "LogisticRegression_fit solve alpha X t iter_max = Inr ?r"
    using li by (simp add: LogisticRegression_fit_def LogisticRegression_finish_def Let_def
        zeros_def)
  have c: "LogisticRegression_fit solve alpha X t (int j + 1) = Inr ?r"
    using li pre by (simp add: LogisticRegression_fit_def LogisticRegression_finish_def Let_def
        zeros_def)
  have n: "nat (int j + 1) = Suc j" by simp
  show ?thesis
  proof (intro exI [of _ ?r] conjI allI impI)
    show "LogisticRegression_fit solve alpha X t iter_max = Inr ?r" by (rule f)
    show "1 \<le> lr_n_iter ?r" by simp
    show "lr_n_iter ?r \<le> iter_max" using j by simp
    show "LogisticRegression_fit solve alpha X t (lr_n_iter ?r) = Inr ?r" using c by simp
    show "lr_w ?r = (?P ^^ nat (lr_n_iter ?r)) ?w0" using w by (simp add: n)
    show "\<not> ?S ((?P ^^ k) ?w0)" if "k < nat (lr_n_iter ?r) - 1" for k
      using no [of k] that by (simp add: n)
    show "?S ((?P ^^ (nat (lr_n_iter ?r) - 1)) ?w0)" if "lr_n_iter ?r < iter_max"
      using st that by (simp add: n)
  qed
qed

theorem LogisticRegression_fit_n_iter_witness:
  "(1::int) \<le> 3
   \<and> LogisticRegression_fit solve_1x1 0 [[0]] [1] 3 = Inr \<lparr>lr_w = [0], lr_n_iter = 1\<rparr>
   \<and> LogisticRegression_stops solve_1x1 0 [[0]] [1]
       ((LogisticRegression_pass solve_1x1 0 [[0]] [1] ^^ 0) (zeros (ncols [[0::real]])))"
proof -
  have s: "solve_1x1
      (LogisticRegression_hessian 0 [[0]] (LogisticRegression_predict_proba [0] [[0]]) (eye 1))
      (LogisticRegression_grad 0 [[0]] [1] (LogisticRegression_predict_proba [0] [[0]]) [0])
      = None"
    by (simp add: LogisticRegression_hessian_def LogisticRegression_grad_def
        LogisticRegression_predict_proba_def sigmoid_def array_defs)
  have f: "LogisticRegression_fit solve_1x1 0 [[0]] [1] 3 = Inr \<lparr>lr_w = [0], lr_n_iter = 1\<rparr>"
    using s
    by (simp add: LogisticRegression_fit_def LogisticRegression_finish_def
        LogisticRegression_body_def Let_def py_range_def zeros_def ncols_def upto_rec1)
  from LogisticRegression_fit_n_iter [of 3 solve_1x1 0 "[[0]]" "[1]"] f
  show ?thesis by auto
qed

section \<open>Properties: the loops of the two fitters\<close>

lemma eye_rows_nonneg:
  assumes "t \<noteq> []" "list_all (\<lambda>k. 0 \<le> k) t"
  shows "\<exists>T. eye_rows (Max (set t) + 1) t = Inr T"
proof -
  have m: "\<And>k. k \<in> set t \<Longrightarrow> k \<le> Max (set t)" by simp
  have "0 \<le> Max (set t)"
    using assms m by (cases t) (auto simp: list_all_iff intro: order_trans)
  moreover have "\<not> (k < - (Max (set t) + 1) \<or> Max (set t) + 1 \<le> k)" if "k \<in> set t" for k
  proof -
    have "0 \<le> k" using assms(2) that by (simp add: list_all_iff)
    moreover have "k \<le> Max (set t)" using that by (rule m)
    ultimately show ?thesis by linarith
  qed
  ultimately show ?thesis by (auto simp: eye_rows_def list_ex_iff)
qed

text \<open>
  C6. In a pass of the loop of \<^verbatim>\<open>LogisticRegression.fit\<close>, and of
  \<^verbatim>\<open>MultiLogisticRegression.fit\<close>, whose solve fails with \<^verbatim>\<open>LinAlgError\<close>: the loop stops
  there whatever passes remain, \<^verbatim>\<open>fit\<close> returns without an error, the weights it leaves are
  the ones the pass started from, and \<open>n_iter\<close> is the 1-based index of that pass.
\<close>

theorem failed_solve_stops_the_loop:
  "(solve (LogisticRegression_hessian alpha X (LogisticRegression_predict_proba (self_w fr) X) I)
          (LogisticRegression_grad alpha X t
             (LogisticRegression_predict_proba (self_w fr) X) (self_w fr))
      = None \<longrightarrow>
    LogisticRegression_finish (LogisticRegression_loop solve alpha X t I (i # rest) fr)
      = Inr \<lparr>lr_w = self_w fr, lr_n_iter = i + 1\<rparr>)
   \<and>
   (solve_stack solve
       (tT (MultiLogisticRegression_hessian alpha X
              (MultiLogisticRegression_predict_proba (mself_w mfr) X) J))
       (mT (MultiLogisticRegression_grad alpha X T
              (MultiLogisticRegression_predict_proba (mself_w mfr) X) (mself_w mfr)))
      = None \<longrightarrow>
    MultiLogisticRegression_finish
        (MultiLogisticRegression_loop solve alpha X T J (i # rest) mfr)
      = Inr \<lparr>mlr_w = mself_w mfr, mlr_n_iter = i + 1\<rparr>)"
  by (simp add: LogisticRegression_body_def LogisticRegression_finish_def
      MultiLogisticRegression_body_def MultiLogisticRegression_finish_def Let_def)

theorem failed_solve_stops_the_loop_witness:
  "LogisticRegression_finish
     (LogisticRegression_loop solve_1x1 0 [[0]] [1] (eye 1) [0, 1, 2]
        \<lparr>loop_i = None, self_w = [0]\<rparr>)
     = Inr \<lparr>lr_w = [0], lr_n_iter = 1\<rparr>
   \<and> MultiLogisticRegression_finish
     (MultiLogisticRegression_loop solve_1x1 0 [[0]] [[1, 0]] (new_axis (eye 1)) [0, 1, 2]
        \<lparr>mloop_i = None, mself_w = [[0, 0]]\<rparr>)
     = Inr \<lparr>mlr_w = [[0, 0]], mlr_n_iter = 1\<rparr>"
proof -
  have a: "solve_1x1
      (LogisticRegression_hessian 0 [[0]] (LogisticRegression_predict_proba [0] [[0]]) (eye 1))
      (LogisticRegression_grad 0 [[0]] [1] (LogisticRegression_predict_proba [0] [[0]]) [0])
      = None"
    by (simp add: LogisticRegression_hessian_def LogisticRegression_grad_def
        LogisticRegression_predict_proba_def sigmoid_def array_defs)
  have b: "solve_stack solve_1x1
       (tT (MultiLogisticRegression_hessian 0 [[0]]
              (MultiLogisticRegression_predict_proba [[0, 0]] [[0]]) (new_axis (eye 1))))
       (mT (MultiLogisticRegression_grad 0 [[0]] [[1, 0]]
              (MultiLogisticRegression_predict_proba [[0, 0]] [[0]]) [[0, 0]])) = None"
    by (simp add: MultiLogisticRegression_hessian_def MultiLogisticRegression_grad_def
        MultiLogisticRegression_predict_proba_def softmax_def softmax_row_def solve_stack_def
        array_defs upt_conv_Cons)
  show ?thesis
    using a b failed_solve_stops_the_loop
        [of solve_1x1 0 "[[0]]" "\<lparr>loop_i = None, self_w = [0]\<rparr>" "eye 1" "[1]" 0 "[1, 2]"
          "\<lparr>mloop_i = None, mself_w = [[0, 0]]\<rparr>" "new_axis (eye 1)" "[[1, 0]]"]
    by simp
qed

text \<open>
  C10. With \<open>iter_max \<le> 0\<close> the loop body never runs, so \<^verbatim>\<open>self.n_iter = i + 1\<close> reads the
  unbound \<^verbatim>\<open>i\<close>: \<^verbatim>\<open>LogisticRegression.fit\<close> raises \<^verbatim>\<open>UnboundLocalError\<close>, and
  \<^verbatim>\<open>MultiLogisticRegression.fit\<close> raises too, that same error whenever the labels are a
  non-empty vector of non-negative integers (other label vectors are refused earlier, while the
  one-hot targets are built). Hence neither call returns normally unless \<open>iter_max \<ge> 1\<close>.
\<close>

theorem fit_without_iterations:
  assumes "iter_max \<le> 0"
  shows "LogisticRegression_fit solve alpha X t iter_max = Inl UnboundLocalError
       \<and> (\<exists>e. MultiLogisticRegression_fit solve alpha X labels iter_max = Inl e)
       \<and> (labels \<noteq> [] \<and> list_all (\<lambda>k. 0 \<le> k) labels \<longrightarrow>
            MultiLogisticRegression_fit solve alpha X labels iter_max = Inl UnboundLocalError)"
proof -
  have r: "py_range iter_max = []" using assms by (rule py_range_nonpos)
  have a: "LogisticRegression_fit solve alpha X t iter_max = Inl UnboundLocalError"
    by (simp add: LogisticRegression_fit_def LogisticRegression_finish_def r Let_def)
  have b: "\<exists>e. MultiLogisticRegression_fit solve alpha X labels iter_max = Inl e"
    by (simp add: MultiLogisticRegression_fit_def MultiLogisticRegression_finish_def r Let_def
        split: sum.splits)
  have c: "MultiLogisticRegression_fit solve alpha X labels iter_max = Inl UnboundLocalError"
    if "labels \<noteq> []" "list_all (\<lambda>k. 0 \<le> k) labels"
    using eye_rows_nonneg [OF that] that(1)
    by (auto simp: MultiLogisticRegression_fit_def MultiLogisticRegression_finish_def r Let_def)
  show ?thesis using a b c by blast
qed

theorem fit_without_iterations_witness:
  "(0::int) \<le> 0 \<and> LogisticRegression_fit solve_1x1 0 [[1]] [1] 0 = Inl UnboundLocalError
   \<and> MultiLogisticRegression_fit solve_1x1 0 [[1]] [0, 1] 0 = Inl UnboundLocalError"
  using fit_without_iterations [of 0 solve_1x1 0 "[[1]]" "[1]" "[0, 1]"] by simp

section \<open>Properties: BayesianLogisticRegression\<close>

lemma sigmoid_mono: "a \<le> b \<Longrightarrow> sigmoid a \<le> sigmoid b"
  unfolding sigmoid_def
  by (intro divide_left_mono) (auto simp: add_pos_pos)

lemma sigmoid_zero: "sigmoid 0 = 1 / 2"
  by (simp add: sigmoid_def)

lemma shrink_between:
  assumes "0 \<le> v"
  shows "(0 \<le> m \<longrightarrow> 0 \<le> m / sqrt (1 + pi * v / 8) \<and> m / sqrt (1 + pi * v / 8) \<le> m)
       \<and> (m \<le> 0 \<longrightarrow> m \<le> m / sqrt (1 + pi * v / 8) \<and> m / sqrt (1 + pi * v / 8) \<le> 0)"
proof -
  have "0 \<le> pi * v / 8" using assms by simp
  then have s: "1 \<le> sqrt (1 + pi * v / 8)" by simp
  then have p: "0 < sqrt (1 + pi * v / 8)" by linarith
  show ?thesis
  proof (intro conjI impI)
    assume m: "0 \<le> m"
    show "0 \<le> m / sqrt (1 + pi * v / 8)" using m p by simp
    have "m / sqrt (1 + pi * v / 8) \<le> m / 1"
      using m s by (intro divide_left_mono) auto
    then show "m / sqrt (1 + pi * v / 8) \<le> m" by simp
  next
    assume m: "m \<le> 0"
    show "m / sqrt (1 + pi * v / 8) \<le> 0" using m p by (simp add: divide_nonpos_pos)
    have "(- m) / sqrt (1 + pi * v / 8) \<le> (- m) / 1"
      using m s by (intro divide_left_mono) auto
    then show "m \<le> m / sqrt (1 + pi * v / 8)" by simp
  qed
qed

lemma mT_nth: "j < ncols C \<Longrightarrow> mT C ! j = map (\<lambda>r. r ! j) C"
  by (simp add: mT_def)

lemma ncols_is_matrix: "is_matrix n d C \<Longrightarrow> 0 < n \<Longrightarrow> ncols C = d"
  by (cases C) (auto simp: is_matrix_def ncols_def)

lemma row_var:
  assumes C: "is_matrix d d C" and x: "length x = d"
  shows "sum_list (vmul (map (dot x) (mT C)) x) = quad_form C x"
proof (cases "d = 0")
  case True
  then show ?thesis using x by (simp add: vmul_def quad_form_def dot_def)
next
  case False
  then have d: "0 < d" by simp
  have nc: "ncols C = d" using ncols_is_matrix [OF C d] .
  have lC: "length C = d" and rows: "\<And>i. i < d \<Longrightarrow> length (C ! i) = d"
    using C by (auto simp: is_matrix_def list_all_length)
  have "sum_list (vmul (map (dot x) (mT C)) x) = dot (map (dot x) (mT C)) x"
    by (simp add: vmul_def dot_def)
  also have "\<dots> = (\<Sum>j<d. dot x (mT C ! j) * x ! j)"
    using x nc by (simp add: dot_nth mT_def)
  also have "\<dots> = (\<Sum>j<d. (\<Sum>i<d. x ! i * C ! i ! j) * x ! j)"
    using x nc lC by (intro sum.cong) (simp_all add: mT_nth dot_nth)
  also have "\<dots> = (\<Sum>j<d. \<Sum>i<d. x ! i * (C ! i ! j * x ! j))"
    by (simp add: sum_distrib_right mult.assoc)
  also have "\<dots> = (\<Sum>i<d. \<Sum>j<d. x ! i * (C ! i ! j * x ! j))"
    by (rule sum.swap)
  also have "\<dots> = (\<Sum>i<d. x ! i * (\<Sum>j<d. C ! i ! j * x ! j))"
    by (simp add: sum_distrib_left)
  also have "\<dots> = (\<Sum>i<d. x ! i * dot (C ! i) x)"
    using x rows by (intro sum.cong) (simp_all add: dot_nth)
  also have "\<dots> = quad_form C x"
    using x lC by (simp add: quad_form_def dot_nth matvec_def)
  finally show ?thesis .
qed

lemma positive_semidefinite_rows:
  "positive_semidefinite C \<Longrightarrow> list_all (\<lambda>x. length x = length C) X
   \<Longrightarrow> list_all (\<lambda>x. 0 \<le> quad_form C x) X"
  by (simp add: positive_semidefinite_def list_all_iff)

text \<open>
  C5. For a stored covariance of shape \<open>(d, d)\<close> and inputs with \<open>d\<close> features, on every
  row \<open>x\<close> whose variance \<open>var_a\<close>, the quadratic form of the covariance at \<open>x\<close>, is not
  negative (as it is on every row when the covariance is positive semi-definite):
  \<^verbatim>\<open>predict_dist\<close> returns \<open>sigmoid (mean_a / sqrt (1 + pi var_a / 8))\<close> with
  \<open>mean_a\<close> the product of \<open>x\<close> and \<open>w\<close>, and that value lies weakly between \<open>1/2\<close> and the
  value of \<^verbatim>\<open>predict_proba\<close> on the row.
\<close>

theorem predict_dist_between:
  assumes C: "is_matrix d d (w_cov self)"
    and X: "list_all (\<lambda>x. length x = d) X"
    and var: "list_all (\<lambda>x. 0 \<le> quad_form (w_cov self) x) X"
    and n: "n < length X"
  shows "let x = X ! n;
             mean_a = dot x (lr_w self);
             var_a = quad_form (w_cov self) x;
             p = LogisticRegression_predict_proba (lr_w self) X ! n;
             q = predict_dist self X ! n
         in q = sigmoid (mean_a / sqrt (1 + pi * var_a / 8))
            \<and> (1 / 2 \<le> q \<and> q \<le> p \<or> p \<le> q \<and> q \<le> 1 / 2)"
proof -
  let ?x = "X ! n"
  let ?m = "dot ?x (lr_w self)"
  let ?v = "quad_form (w_cov self) ?x"
  have lx: "length ?x = d" and v: "0 \<le> ?v"
    using X var n by (simp_all add: list_all_length)
  have "map sum_list (map2 vmul (matmul X (w_cov self)) X) ! n
        = sum_list (vmul (map (dot ?x) (mT (w_cov self))) ?x)"
    using n by (simp add: matmul_def)
  also have "\<dots> = ?v" using row_var [OF C lx] .
  finally have var_n: "map sum_list (map2 vmul (matmul X (w_cov self)) X) ! n = ?v" .
  have q: "predict_dist self X ! n = sigmoid (?m / sqrt (1 + pi * ?v / 8))"
    using n var_n by (simp add: predict_dist_def Let_def matvec_def matmul_def)
  have p: "LogisticRegression_predict_proba (lr_w self) X ! n = sigmoid ?m"
    using n by (simp add: LogisticRegression_predict_proba_def matvec_def)
  note sh = shrink_between [OF v, of ?m]
  have "1 / 2 \<le> sigmoid (?m / sqrt (1 + pi * ?v / 8)) \<and> sigmoid (?m / sqrt (1 + pi * ?v / 8)) \<le> sigmoid ?m
        \<or> sigmoid ?m \<le> sigmoid (?m / sqrt (1 + pi * ?v / 8)) \<and> sigmoid (?m / sqrt (1 + pi * ?v / 8)) \<le> 1 / 2"
  proof (cases "0 \<le> ?m")
    case True
    then have "0 \<le> ?m / sqrt (1 + pi * ?v / 8)" "?m / sqrt (1 + pi * ?v / 8) \<le> ?m"
      using sh by simp_all
    then show ?thesis using sigmoid_mono [of 0] sigmoid_mono [of _ ?m] sigmoid_zero by metis
  next
    case False
    then have "?m \<le> 0" by simp
    then have "?m \<le> ?m / sqrt (1 + pi * ?v / 8)" "?m / sqrt (1 + pi * ?v / 8) \<le> 0"
      using sh by simp_all
    then show ?thesis using sigmoid_mono [of _ 0] sigmoid_mono [of ?m] sigmoid_zero by metis
  qed
  then show ?thesis using p q by (simp add: Let_def)
qed

theorem predict_dist_between_witness:
  "is_matrix 1 1 (w_cov \<lparr>lr_w = [2], lr_n_iter = 1, w_cov = [[1]]\<rparr>)
   \<and> list_all (\<lambda>x. length x = 1) [[1::real]]
   \<and> list_all (\<lambda>x. 0 \<le> quad_form (w_cov \<lparr>lr_w = [2], lr_n_iter = 1, w_cov = [[1]]\<rparr>) x) [[1]]
   \<and> (0::nat) < length [[1::real]]
   \<and> predict_dist \<lparr>lr_w = [2], lr_n_iter = 1, w_cov = [[1]]\<rparr> [[1]] ! 0
       = sigmoid (2 / sqrt (1 + pi / 8))
   \<and> 1 / 2 \<le> predict_dist \<lparr>lr_w = [2], lr_n_iter = 1, w_cov = [[1]]\<rparr> [[1]] ! 0
   \<and> predict_dist \<lparr>lr_w = [2], lr_n_iter = 1, w_cov = [[1]]\<rparr> [[1]] ! 0
       \<le> LogisticRegression_predict_proba [2] [[1]] ! 0"
proof -
  have h: "is_matrix 1 1 (w_cov \<lparr>lr_w = [2], lr_n_iter = 1, w_cov = [[1]]\<rparr>)"
    "list_all (\<lambda>x. length x = 1) [[1::real]]"
    "list_all (\<lambda>x. 0 \<le> quad_form (w_cov \<lparr>lr_w = [2], lr_n_iter = 1, w_cov = [[1]]\<rparr>) x) [[1]]"
    "(0::nat) < length [[1::real]]"
    by (simp_all add: is_matrix_def quad_form_def dot_def matvec_def)
  have s: "\<not> sigmoid 2 \<le> 1 / 2"
  proof -
    have e: "exp (- 2 :: real) < 1" by simp
    have pos: "0 < 1 + exp (- 2 :: real)" by (simp add: add_pos_pos)
    have "1 / 2 < 1 / (1 + exp (- 2 :: real))"
      using e pos by (simp add: pos_less_divide_eq)
    then show ?thesis by (simp add: sigmoid_def)
  qed
  have p: "LogisticRegression_predict_proba [2] [[1]] ! 0 = sigmoid 2"
    by (simp add: LogisticRegression_predict_proba_def matvec_def dot_def)
  show ?thesis
    using predict_dist_between [OF h] h s p
    by (auto simp: Let_def quad_form_def dot_def matvec_def)
qed

section \<open>Properties: GaussianProcessClassifier\<close>

lemma pairwise_entries:
  assumes "i < length x" "j < length y"
  shows "fst (pairwise x y) ! i ! j = x ! i" and "snd (pairwise x y) ! i ! j = y ! j"
  using assms by (simp_all add: pairwise_def)

lemma dot_kernel_entries:
  assumes "i < length x" "j < length y"
  shows "dot_kernel (fst (pairwise x y)) (snd (pairwise x y)) ! i ! j = dot (x ! i) (y ! j)"
  using assms by (simp add: dot_kernel_def pairwise_def)

lemma dot_kernel_sound: "kernel_sound dot_kernel"
  by (auto simp: kernel_sound_def dot_kernel_def pairwise_def is_matrix_def list_all_length)

lemma inv_1x1_sound: "inverter_sound inv_1x1"
  unfolding inverter_sound_def
proof (intro allI impI)
  fix A P
  assume "inv_1x1 A = Some P"
  then show "is_matrix (length A) (length A) P \<and> matmul A P = eye (length A)
             \<and> matmul P A = eye (length A)"
    by (induction A rule: inv_1x1.induct)
       (auto simp: is_matrix_def matmul_def mT_def ncols_def dot_def eye_def split: if_splits)
qed

lemma matmul_matvec:
  assumes P: "is_matrix n m P" and r: "length r = n" and t: "length t = m"
  shows "dot (map (dot r) (mT P)) t = dot r (matvec P t)"
proof (cases "n = 0")
  case True
  then show ?thesis using P r by (simp add: is_matrix_def mT_def ncols_def dot_def matvec_def)
next
  case False
  then have n: "0 < n" by simp
  have nc: "ncols P = m" using ncols_is_matrix [OF P n] .
  have lP: "length P = n" and rows: "\<And>k. k < n \<Longrightarrow> length (P ! k) = m"
    using P by (auto simp: is_matrix_def list_all_length)
  have "dot (map (dot r) (mT P)) t = (\<Sum>j<m. dot r (mT P ! j) * t ! j)"
    using t nc by (simp add: dot_nth mT_def)
  also have "\<dots> = (\<Sum>j<m. (\<Sum>k<n. r ! k * P ! k ! j) * t ! j)"
    using r nc lP by (intro sum.cong) (simp_all add: mT_nth dot_nth)
  also have "\<dots> = (\<Sum>j<m. \<Sum>k<n. r ! k * (P ! k ! j * t ! j))"
    by (simp add: sum_distrib_right mult.assoc)
  also have "\<dots> = (\<Sum>k<n. \<Sum>j<m. r ! k * (P ! k ! j * t ! j))"
    by (rule sum.swap)
  also have "\<dots> = (\<Sum>k<n. r ! k * (\<Sum>j<m. P ! k ! j * t ! j))"
    by (simp add: sum_distrib_left)
  also have "\<dots> = (\<Sum>k<n. r ! k * dot (P ! k) t)"
    using t rows by (intro sum.cong) (simp_all add: dot_nth)
  also have "\<dots> = dot r (matvec P t)"
    using r lP by (simp add: dot_nth matvec_def)
  finally show ?thesis .
qed

lemma matvec_matmul:
  assumes "is_matrix n m P" "list_all (\<lambda>r. length r = n) K" "length t = m"
  shows "matvec (matmul K P) t = matvec K (matvec P t)"
  using assms matmul_matvec [OF assms(1) _ assms(3)]
  by (simp add: matvec_def matmul_def list_all_iff)

text \<open>
  C3. After \<^verbatim>\<open>fit(X_train, t)\<close> with jitter \<open>nu\<close>, the stored precision \<open>P\<close> is the inverse of
  \<open>Gram + nu I\<close>, and \<^verbatim>\<open>predict(X)\<close> returns \<open>sigmoid (K (P t))\<close> entry by entry, where
  \<open>Gram\<close> is the kernel on all pairs of training inputs and \<open>K\<close> the kernel on all pairs of
  an input and a training input; 1-D inputs are turned into columns first. The kernel and
  \<^verbatim>\<open>np.linalg.inv\<close> are parameters under their contracts.
\<close>

theorem GaussianProcessClassifier_predict_formula:
  assumes fit: "GaussianProcessClassifier_fit linalg_inv kernel_fn nu Xtrain t = Inr self"
    and inv: "inverter_sound linalg_inv"
    and kern: "kernel_sound kernel_fn"
    and t: "length t = length (as_columns Xtrain)"
  shows "let Xt = as_columns Xtrain;
             Gram = kernel_fn (fst (pairwise Xt Xt)) (snd (pairwise Xt Xt));
             K = kernel_fn (fst (pairwise (as_columns X) Xt)) (snd (pairwise (as_columns X) Xt));
             C = madd Gram (mscale nu (eye (length Xt)));
             P = precision self
         in matmul C P = eye (length Xt) \<and> matmul P C = eye (length Xt)
          \<and> GaussianProcessClassifier_predict kernel_fn self X
              = map sigmoid (matvec K (matvec P t))"
proof -
  let ?Xt = "as_columns Xtrain"
  let ?n = "length ?Xt"
  let ?Gram = "kernel_fn (fst (pairwise ?Xt ?Xt)) (snd (pairwise ?Xt ?Xt))"
  let ?K = "kernel_fn (fst (pairwise (as_columns X) ?Xt)) (snd (pairwise (as_columns X) ?Xt))"
  let ?C = "madd ?Gram (mscale nu (eye ?n))"
  have G: "is_matrix ?n ?n ?Gram" using kern by (simp add: kernel_sound_def)
  have K: "list_all (\<lambda>r. length r = ?n) ?K"
    using kern by (simp add: kernel_sound_def is_matrix_def)
  have lG: "length ?Gram = ?n" using G by (simp add: is_matrix_def)
  have lC: "length ?C = ?n" using lG by (simp add: madd_def mscale_def eye_def)
  from fit obtain P where P: "linalg_inv ?C = Some P"
    and self: "self = \<lparr>gp_X = ?Xt, gp_t = t, covariance = ?C, precision = P\<rparr>"
    by (auto simp: GaussianProcessClassifier_fit_def Let_def lG split_beta split: option.splits)
  from inv P have "is_matrix (length ?C) (length ?C) P \<and> matmul ?C P = eye (length ?C)
      \<and> matmul P ?C = eye (length ?C)"
    unfolding inverter_sound_def by blast
  then have Pm: "is_matrix ?n ?n P" and i1: "matmul ?C P = eye ?n"
    and i2: "matmul P ?C = eye ?n"
    unfolding lC by blast+
  have "GaussianProcessClassifier_predict kernel_fn self X = map sigmoid (matvec (matmul ?K P) t)"
    by (simp add: GaussianProcessClassifier_predict_def self Let_def split_beta)
  also have "\<dots> = map sigmoid (matvec ?K (matvec P t))"
    using matvec_matmul [OF Pm K t] by simp
  finally show ?thesis using i1 i2 self by (simp add: Let_def)
qed


theorem GaussianProcessClassifier_predict_formula_witness:
  "GaussianProcessClassifier_fit inv_1x1 dot_kernel 1 (Array1 [1]) [1]
     = Inr \<lparr>gp_X = [[1]], gp_t = [1], covariance = [[2]], precision = [[1 / 2]]\<rparr>
   \<and> inverter_sound inv_1x1 \<and> kernel_sound dot_kernel
   \<and> length [1::real] = length (as_columns (Array1 [1]))
   \<and> GaussianProcessClassifier_predict dot_kernel
        \<lparr>gp_X = [[1]], gp_t = [1], covariance = [[2]], precision = [[1 / 2]]\<rparr> (Array1 [2])
       = [sigmoid 1]"
proof -
  have f: "GaussianProcessClassifier_fit inv_1x1 dot_kernel 1 (Array1 [1]) [1]
     = Inr \<lparr>gp_X = [[1]], gp_t = [1], covariance = [[2]], precision = [[1 / 2]]\<rparr>"
    by (simp add: GaussianProcessClassifier_fit_def pairwise_def dot_kernel_def Let_def array_defs)
  have l: "length [1::real] = length (as_columns (Array1 [1]))" by simp
  show ?thesis
    using GaussianProcessClassifier_predict_formula
            [OF f inv_1x1_sound dot_kernel_sound l, of "Array1 [2]"]
      f inv_1x1_sound dot_kernel_sound
    by (simp add: Let_def pairwise_def dot_kernel_def array_defs)
qed

section \<open>Properties: LinearDiscriminantAnalysis\<close>

lemma estimate_no_assertion:
  "LinearDiscriminantAnalysis_estimate linalg_inv Gaussian_of X t \<noteq> Inl AssertionError"
  by (simp add: LinearDiscriminantAnalysis_estimate_def Let_def split: option.splits)

lemma gapless_two_classes:
  assumes "t \<noteq> []" "set t = {0..Max (set t)}" "set t \<noteq> {0, 1}"
  shows "Max (set t) + 1 \<noteq> (2::int)"
proof
  assume "Max (set t) + 1 = 2"
  then have "Max (set t) = 1" by simp
  then have "set t = {0..1}" using assms(2) by simp
  moreover have "{0..1} = {0, 1::int}" by auto
  ultimately show False using assms(3) by simp
qed

text \<open>
  C7, as the code has it. \<^verbatim>\<open>fit\<close> raises \<^verbatim>\<open>AssertionError\<close>, before it computes anything,
  exactly when the target vector is non-empty and \<open>max(t) + 1 \<noteq> 2\<close>; on an empty target vector
  \<^verbatim>\<open>np.max\<close> raises \<^verbatim>\<open>ValueError\<close> inside the assertion. So a vector of labels without gaps
  (its labels are all of \<open>0..max(t)\<close>) whose label set is not \<open>{0, 1}\<close> is refused.
\<close>

theorem LinearDiscriminantAnalysis_fit_assertion:
  "(LinearDiscriminantAnalysis_fit linalg_inv Gaussian_of X t = Inl AssertionError
      \<longleftrightarrow> t \<noteq> [] \<and> Max (set t) + 1 \<noteq> 2)
   \<and> (t = [] \<longrightarrow> LinearDiscriminantAnalysis_fit linalg_inv Gaussian_of X t = Inl ValueError)
   \<and> (t \<noteq> [] \<and> set t = {0..Max (set t)} \<and> set t \<noteq> {0, 1} \<longrightarrow>
        LinearDiscriminantAnalysis_fit linalg_inv Gaussian_of X t = Inl AssertionError)"
  using estimate_no_assertion [of linalg_inv Gaussian_of X t] gapless_two_classes [of t]
  by (auto simp: LinearDiscriminantAnalysis_fit_def)

theorem LinearDiscriminantAnalysis_fit_assertion_witness:
  "[0, 1, 2::int] \<noteq> [] \<and> set [0, 1, 2::int] = {0..Max (set [0, 1, 2])}
   \<and> set [0, 1, 2::int] \<noteq> {0, 1}
   \<and> LinearDiscriminantAnalysis_fit inv_1x1 Gaussian_summary [[0], [1], [2]] [0, 1, 2]
       = Inl AssertionError"
proof -
  have a: "[0, 1, 2::int] \<noteq> []" by simp
  have b: "set [0, 1, 2::int] = {0..Max (set [0, 1, 2])}" by auto
  have c: "set [0, 1, 2::int] \<noteq> {0, 1}"
  proof
    assume "set [0, 1, 2::int] = {0, 1}"
    moreover have "(2::int) \<in> set [0, 1, 2]" by simp
    ultimately have "(2::int) \<in> {0, 1}" by (rule subst)
    then show False by simp
  qed
  have "[0, 1, 2::int] \<noteq> [] \<and> set [0, 1, 2::int] = {0..Max (set [0, 1, 2])}
        \<and> set [0, 1, 2::int] \<noteq> {0, 1} \<longrightarrow>
        LinearDiscriminantAnalysis_fit inv_1x1 Gaussian_summary [[0], [1], [2]] [0, 1, 2]
          = Inl AssertionError"
    using LinearDiscriminantAnalysis_fit_assertion
            [of inv_1x1 Gaussian_summary "[[0], [1], [2]]" "[0, 1, 2]"]
    by blast
  with a b c show ?thesis by blast
qed

text \<open>
  C7 as stated fails: the labels of \<open>[1, 1]\<close> are not \<open>{0, 1}\<close>, yet \<open>max(t) + 1 = 2\<close>, the
  assertion passes and \<^verbatim>\<open>fit\<close> goes on to estimate its parameters.
\<close>

theorem single_class_passes_the_assertion:
  "set [1, 1::int] \<noteq> {0, 1}
   \<and> LinearDiscriminantAnalysis_fit inv_1x1 Gaussian_summary [[0], [2]] [1, 1]
       = LinearDiscriminantAnalysis_estimate inv_1x1 Gaussian_summary [[0], [2]] [1, 1]
   \<and> LinearDiscriminantAnalysis_fit inv_1x1 Gaussian_summary [[0], [2]] [1, 1]
       \<noteq> Inl AssertionError"
  using estimate_no_assertion [of inv_1x1 Gaussian_summary "[[0], [2]]" "[1, 1]"]
  by (auto simp: LinearDiscriminantAnalysis_fit_def)

lemma outer_nth: "length x = d \<Longrightarrow> outer x = map (\<lambda>i. map (\<lambda>j. x ! i * x ! j) [0..<d]) [0..<d]"
  by (auto simp: outer_def intro!: nth_equalityI)

lemma foldr_outer:
  "list_all (\<lambda>x. length x = d) A \<Longrightarrow>
   foldr (\<lambda>x S. madd (outer x) S) A (replicate d (replicate d 0)) = gram_entries d A"
proof (induction A)
  case Nil
  show ?case by (auto simp: gram_entries_def intro!: nth_equalityI)
next
  case (Cons x A)
  then have x: "length x = d" and IH: "foldr (\<lambda>x S. madd (outer x) S) A (replicate d (replicate d 0)) = gram_entries d A"
    by simp_all
  show ?case
    unfolding foldr_Cons o_apply IH outer_nth [OF x]
    by (auto simp: gram_entries_def madd_def vadd_def intro!: nth_equalityI)
qed

lemma dot_columns: "dot (map f A) (map g A) = sum_list (map (\<lambda>x. f x * g x) A)"
  by (induction A) (simp_all add: dot_def)

lemma matmul_gram:
  assumes "A \<noteq> []" "list_all (\<lambda>x. length x = d) A"
  shows "matmul (mT A) A = gram_entries d A"
proof -
  have nc: "ncols A = d" using assms by (cases A) (simp_all add: ncols_def)
  show ?thesis
    by (simp add: matmul_def mT_def nc gram_entries_def dot_columns)
qed

lemma code_scatter:
  assumes "Xc \<noteq> []" "list_all (\<lambda>x. length x = d) Xc" "length m = d"
  shows "matmul (mT (rows_minus Xc m)) (rows_minus Xc m) = scatter Xc m"
proof -
  let ?A = "rows_minus Xc m"
  have A: "?A \<noteq> []" "list_all (\<lambda>x. length x = d) ?A"
    using assms by (simp_all add: rows_minus_def vsub_def list_all_iff)
  have "scatter Xc m = foldr (\<lambda>x S. madd (outer x) S) ?A (replicate d (replicate d 0))"
    using assms(3) by (simp add: scatter_def rows_minus_def foldr_map o_def)
  also have "\<dots> = gram_entries d ?A" using A(2) by (rule foldr_outer)
  finally show ?thesis using matmul_gram [OF A] by simp
qed

lemma select_rows_rows:
  "list_all (\<lambda>x. length x = d) X \<Longrightarrow> list_all (\<lambda>x. length x = d) (select_rows X t c)"
  by (auto simp: select_rows_def list_all_iff dest: set_zip_leftD)

lemma select_rows_nonempty:
  assumes "c \<in> set t" "length t = length X"
  shows "select_rows X t c \<noteq> []"
proof -
  from assms(1) obtain k where k: "k < length t" "t ! k = c" by (auto simp: in_set_conv_nth)
  then have "(X ! k, c) \<in> set (zip X t)" using assms(2) by (auto simp: set_zip)
  then show ?thesis by (auto simp: select_rows_def filter_empty_conv)
qed

lemma col_mean_length:
  "Xc \<noteq> [] \<Longrightarrow> list_all (\<lambda>x. length x = d) Xc \<Longrightarrow> length (col_mean Xc) = d"
  by (cases Xc) (simp_all add: col_mean_def mT_def ncols_def)

lemma gram_scatter:
  assumes "Xc \<noteq> []" "list_all (\<lambda>x. length x = d) Xc" "length m = d"
  shows "gram k (rows_minus Xc m) = scatter Xc m"
  using assms(1) code_scatter [OF assms] by (simp add: gram_def rows_minus_def)

lemma estimate_formula:
  "LinearDiscriminantAnalysis_estimate linalg_inv Gaussian_of X t =
     (let X0 = select_rows X t 0;
          X1 = select_rows X t 1;
          m0 = col_mean X0;
          m1 = col_mean X1;
          cov_inclass = madd (gram (ncols X) (rows_minus X0 m0))
                             (gram (ncols X) (rows_minus X1 m1))
      in case linalg_inv cov_inclass of
           None \<Rightarrow> Inl LinAlgError
         | Some cov_inv \<Rightarrow>
             if X0 = [] \<or> X1 = [] then Inr NotFinite
             else
               (let w = unit_direction (matvec cov_inv (vsub m1 m0));
                    g0 = Gaussian_of (matvec X0 w);
                    g1 = Gaussian_of (matvec X1 w)
                in if lda_finite g0 g1
                   then Inr (Finite \<lparr>lda_w = w, threshold = lda_threshold g0 g1\<rparr>)
                   else Inr NotFinite))"
  by (auto simp: LinearDiscriminantAnalysis_estimate_def Let_def unit_direction_def
      lda_threshold_def lda_finite_def not_le not_less split: option.splits)

text \<open>
  C4. On a feature matrix of shape \<open>(n, d)\<close> with \<open>n\<close> labels that pass the assertion and
  include the label 0: with \<open>S\<close> the sum of the two classes' scatters around their means
  \<open>m0\<close> and \<open>m1\<close>, \<^verbatim>\<open>fit\<close> raises \<^verbatim>\<open>LinAlgError\<close> when \<open>S\<close> has no inverse, and otherwise
  sets \<open>w\<close> to the inverse of \<open>S\<close> times \<open>m1 - m0\<close>, divided by its norm clipped below at
  \<open>1e-10\<close>, and the threshold to \<open>(sqrt (b^2 - a c) - b) / a\<close>, with \<open>a\<close>, \<open>b\<close>, \<open>c\<close> computed
  from the Gaussian summaries of the two classes' projections onto \<open>w\<close>. That threshold is a
  number exactly when the two variances are not zero and of one sign, \<open>b^2 - a c\<close> is not
  negative and \<open>a\<close> is not zero; otherwise \<^verbatim>\<open>fit\<close> stores \<^verbatim>\<open>nan\<close> or \<^verbatim>\<open>inf\<close>.
\<close>

theorem LinearDiscriminantAnalysis_fit_formula:
  assumes X: "is_matrix n d X" and t: "length t = n"
    and two: "Max (set t) + 1 = 2" and zero: "0 \<in> set t"
    and inv: "inverter_sound linalg_inv"
  shows "let X0 = select_rows X t 0;
             X1 = select_rows X t 1;
             m0 = col_mean X0;
             m1 = col_mean X1;
             S = madd (scatter X0 m0) (scatter X1 m1)
         in LinearDiscriminantAnalysis_fit linalg_inv Gaussian_of X t =
              (case linalg_inv S of
                 None \<Rightarrow> Inl LinAlgError
               | Some S_inv \<Rightarrow>
                   (let w = unit_direction (matvec S_inv (vsub m1 m0));
                        g0 = Gaussian_of (matvec X0 w);
                        g1 = Gaussian_of (matvec X1 w)
                    in if lda_finite g0 g1
                       then Inr (Finite \<lparr>lda_w = w, threshold = lda_threshold g0 g1\<rparr>)
                       else Inr NotFinite))
            \<and> (\<forall>S_inv. linalg_inv S = Some S_inv \<longrightarrow>
                   matmul S S_inv = eye (length S) \<and> matmul S_inv S = eye (length S))"
proof -
  have ne: "t \<noteq> []" using zero by auto
  have "Max (set t) \<in> set t" using ne by (intro Max_in) simp_all
  then have one: "1 \<in> set t" using two by simp
  have rows: "list_all (\<lambda>x. length x = d) X" and len: "length t = length X"
    using X t by (simp_all add: is_matrix_def)
  note r0 = select_rows_rows [OF rows, of t 0] and r1 = select_rows_rows [OF rows, of t 1]
  note n0 = select_rows_nonempty [OF zero len] and n1 = select_rows_nonempty [OF one len]
  note s0 = gram_scatter [OF n0 r0 col_mean_length [OF n0 r0]]
  note s1 = gram_scatter [OF n1 r1 col_mean_length [OF n1 r1]]
  have i: "matmul S S_inv = eye (length S) \<and> matmul S_inv S = eye (length S)"
    if "linalg_inv S = Some S_inv" for S S_inv
    using inv that unfolding inverter_sound_def by blast
  have fit: "LinearDiscriminantAnalysis_fit linalg_inv Gaussian_of X t
             = LinearDiscriminantAnalysis_estimate linalg_inv Gaussian_of X t"
    using ne two by (simp add: LinearDiscriminantAnalysis_fit_def)
  show ?thesis
    unfolding fit estimate_formula using n0 n1 i
    by (simp add: Let_def s0 s1 split: option.splits)
qed


theorem LinearDiscriminantAnalysis_fit_formula_witness:
  "is_matrix 4 1 [[0], [1], [3], [5::real]] \<and> length [0, 0, 1, 1::int] = 4
   \<and> Max (set [0, 0, 1, 1::int]) + 1 = 2 \<and> 0 \<in> set [0, 0, 1, 1::int]
   \<and> inverter_sound inv_1x1
   \<and> LinearDiscriminantAnalysis_fit inv_1x1 Gaussian_summary [[0], [1], [3], [5]] [0, 0, 1, 1]
       = Inr (Finite \<lparr>lda_w = [1],
                threshold = lda_threshold \<lparr>mean = 1 / 2, var = 1 / 4\<rparr> \<lparr>mean = 4, var = 1\<rparr>\<rparr>)"
proof -
  have h: "is_matrix 4 1 [[0], [1], [3], [5::real]]" "length [0, 0, 1, 1::int] = 4"
    "Max (set [0, 0, 1, 1::int]) + 1 = 2" "0 \<in> set [0, 0, 1, 1::int]"
    by (simp_all add: is_matrix_def)
  have X0: "select_rows [[0], [1], [3], [5::real]] [0, 0, 1, 1] 0 = [[0], [1]]"
    and X1: "select_rows [[0], [1], [3], [5::real]] [0, 0, 1, 1] 1 = [[3], [5]]"
    by (simp_all add: select_rows_def)
  have m0: "col_mean [[0], [1::real]] = [1 / 2]" and m1: "col_mean [[3], [5::real]] = [4]"
    by (simp_all add: col_mean_def mT_def ncols_def)
  have S: "madd (scatter [[0], [1]] [1 / 2]) (scatter [[3], [5]] [4]) = [[5 / 2]]"
    by (simp add: scatter_def outer_def madd_def vadd_def vsub_def power2_eq_square)
  have w: "unit_direction (matvec [[2 / 5]] (vsub [4] [1 / 2])) = [1]"
    by (simp add: unit_direction_def matvec_def dot_def vsub_def norm2_def)
  have g0: "Gaussian_summary (matvec [[0], [1]] [1]) = \<lparr>mean = 1 / 2, var = 1 / 4\<rparr>"
    and g1: "Gaussian_summary (matvec [[3], [5]] [1]) = \<lparr>mean = 4, var = 1\<rparr>"
    by (simp_all add: Gaussian_summary_def matvec_def dot_def Let_def power2_eq_square)
  have fin: "lda_finite \<lparr>mean = 1 / 2, var = 1 / 4\<rparr> \<lparr>mean = 4, var = 1\<rparr>"
  proof -
    have l: "0 \<le> ln (4::real)" by simp
    have p: "(1 / 2)\<^sup>2 = (1 / 4::real)" "4\<^sup>2 = (16::real)" by (simp_all add: power2_eq_square)
    have "0 \<le> 1 / 4 - (3 / 4) * (1 / 4 - (1 / 4) * 16 - (1 / 4) * ln (4::real))"
      using l by argo
    then show ?thesis by (simp add: lda_finite_def Let_def p)
  qed
  show ?thesis
    using LinearDiscriminantAnalysis_fit_formula [OF h inv_1x1_sound, of Gaussian_summary]
      h inv_1x1_sound
    by (simp add: Let_def X0 X1 m0 m1 S w g0 g1 fin)
qed

text \<open>
  Two calls that return without a number for the threshold: two classes of equal variance
  (\<open>a = 0\<close>, where line 78 divides zero by zero), and a class without samples (the input of
  the counterexample to C7, whose mean is \<^verbatim>\<open>nan\<close>).
\<close>

lemma equal_variances_not_finite:
  "LinearDiscriminantAnalysis_fit inv_1x1 Gaussian_summary [[- 3], [- 1], [1], [3]] [0, 0, 1, 1]
     = Inr NotFinite"
proof -
  have X0: "select_rows [[- 3], [- 1], [1], [3::real]] [0, 0, 1, 1] 0 = [[- 3], [- 1]]"
    and X1: "select_rows [[- 3], [- 1], [1], [3::real]] [0, 0, 1, 1] 1 = [[1], [3]]"
    by (simp_all add: select_rows_def)
  have m0: "col_mean [[- 3], [- 1::real]] = [- 2]" and m1: "col_mean [[1], [3::real]] = [2]"
    by (simp_all add: col_mean_def mT_def ncols_def)
  have S: "madd (gram (Suc 0) (rows_minus [[- 3], [- 1]] [- 2]))
                (gram (Suc 0) (rows_minus [[1], [3]] [2])) = [[4]]"
    by (simp add: gram_def rows_minus_def array_defs)
  have w: "unit_direction (matvec [[1 / 4]] (vsub [2] [- 2])) = [1]"
    by (simp add: unit_direction_def matvec_def dot_def vsub_def norm2_def)
  have g0: "Gaussian_summary (matvec [[- 3], [- 1]] [1]) = \<lparr>mean = - 2, var = 1\<rparr>"
    and g1: "Gaussian_summary (matvec [[1], [3]] [1]) = \<lparr>mean = 2, var = 1\<rparr>"
    by (simp_all add: Gaussian_summary_def matvec_def dot_def Let_def power2_eq_square)
  have nf: "\<not> lda_finite \<lparr>mean = - 2, var = 1\<rparr> \<lparr>mean = 2, var = 1\<rparr>"
    by (simp add: lda_finite_def)
  show ?thesis
    by (simp add: LinearDiscriminantAnalysis_fit_def estimate_formula
        Let_def X0 X1 m0 m1 S w g0 g1 nf ncols_def)
qed

lemma empty_class_not_finite:
  "LinearDiscriminantAnalysis_fit inv_1x1 Gaussian_summary [[0], [2]] [1, 1] = Inr NotFinite"
proof -
  have X0: "select_rows [[0], [2::real]] [1, 1] 0 = []"
    and X1: "select_rows [[0], [2::real]] [1, 1] 1 = [[0], [2]]"
    by (simp_all add: select_rows_def)
  have m1: "col_mean [[0], [2::real]] = [1]"
    by (simp add: col_mean_def mT_def ncols_def)
  have S: "madd (gram (Suc 0) (rows_minus [] (col_mean [])))
                (gram (Suc 0) (rows_minus [[0], [2]] [1])) = [[2]]"
    by (simp add: gram_def rows_minus_def array_defs)
  show ?thesis
    by (simp add: LinearDiscriminantAnalysis_fit_def estimate_formula
        Let_def X0 X1 m1 S ncols_def)
qed

section \<open>Properties: MultiLogisticRegression\<close>

lemma is_matrixD:
  assumes "is_matrix n d A"
  shows "length A = n" and "\<And>i. i < n \<Longrightarrow> length (A ! i) = d"
  using assms by (auto simp: is_matrix_def list_all_length)

lemma is_matrixI:
  "length A = n \<Longrightarrow> (\<And>i. i < n \<Longrightarrow> length (A ! i) = d) \<Longrightarrow> is_matrix n d A"
  by (auto simp: is_matrix_def list_all_length)

lemma sum_list_map2_nth:
  "length xs = length ys \<Longrightarrow> sum_list (map2 f xs ys) = (\<Sum>n<length xs. f (xs ! n) (ys ! n))"
proof -
  assume l: "length xs = length ys"
  have "sum_list (map2 f xs ys) = (\<Sum>n = 0..<length (map2 f xs ys). map2 f xs ys ! n)"
    by (rule sum_list_sum_nth)
  also have "\<dots> = (\<Sum>n = 0..<length xs. f (xs ! n) (ys ! n))"
    using l by (intro sum.cong) auto
  finally show ?thesis by (simp add: atLeast0LessThan)
qed

lemma is_matrix_mT_shape:
  assumes "is_matrix n d A" "0 < n"
  shows "is_matrix d n (mT A)"
  using assms ncols_is_matrix [OF assms]
  by (auto simp: is_matrix_def mT_def list_all_length)

lemma mT_entry:
  assumes "is_matrix n d A" "i < n" "j < d"
  shows "mT A ! j ! i = A ! i ! j"
proof -
  have "0 < n" using assms(2) by simp
  then have "ncols A = d" using ncols_is_matrix [OF assms(1)] by simp
  then show ?thesis using assms by (simp add: mT_def is_matrix_def)
qed

lemma softmax_shape:
  assumes X: "length X = n" and w: "is_matrix d K w" "0 < d"
  shows "is_matrix n K (softmax (matmul X w))"
proof -
  have "ncols w = K" using ncols_is_matrix [OF w] .
  then show ?thesis
    using X by (simp add: is_matrix_def softmax_def softmax_row_def matmul_def mT_def
        list_all_iff Let_def)
qed

lemma msub_shape:
  "is_matrix n K A \<Longrightarrow> is_matrix n K B \<Longrightarrow> is_matrix n K (msub A B)"
  by (auto simp: is_matrix_def msub_def vsub_def list_all_length)

lemma madd_shape:
  "is_matrix n K A \<Longrightarrow> is_matrix n K B \<Longrightarrow> is_matrix n K (madd A B)"
  by (auto simp: is_matrix_def madd_def vadd_def list_all_length)

lemma mscale_shape: "is_matrix n K A \<Longrightarrow> is_matrix n K (mscale c A)"
  by (auto simp: is_matrix_def mscale_def vscale_def list_all_length)

lemma matmul_shape:
  assumes "length A = m" "is_matrix n K B" "0 < n"
  shows "is_matrix m K (matmul A B)"
  using assms ncols_is_matrix [OF assms(2,3)]
  by (simp add: is_matrix_def matmul_def mT_def list_all_iff)

lemma grad_shape:
  assumes X: "is_matrix n d X" and w: "is_matrix d K w" and T: "is_matrix n K T"
    and y: "is_matrix n K y" and pos: "0 < n"
  shows "is_matrix d K (MultiLogisticRegression_grad alpha X T y w)"
proof -
  have l: "length (mT X) = d" using is_matrix_mT_shape [OF X pos] by (simp add: is_matrix_def)
  have "is_matrix d K (matmul (mT X) (msub y T))"
    by (rule matmul_shape [OF l msub_shape [OF y T] pos])
  then show ?thesis
    unfolding MultiLogisticRegression_grad_def
    by (intro madd_shape mscale_shape w)
qed

lemma R_entry:
  assumes X: "is_matrix n d X" and y: "is_matrix n K y"
    and i: "i < d" and m: "m < n"
  shows "times_each (times_bcast (new_axis (mT X)) y) (map (map (\<lambda>p. 1 - p)) y) ! i ! m
         = map (\<lambda>p. X ! m ! i * p * (1 - p)) (y ! m)"
proof -
  have n: "0 < n" using m by simp
  note XT = is_matrixD [OF is_matrix_mT_shape [OF X n]]
  note yD = is_matrixD [OF y]
  have e: "mT X ! i ! m = X ! m ! i" by (rule mT_entry [OF X m i])
  show ?thesis
    using XT yD i m e
    by (auto simp: times_each_def times_bcast_def new_axis_def vmul_def intro!: nth_equalityI)
qed

lemma R_shape:
  assumes X: "is_matrix n d X" and y: "is_matrix n K y" and n: "0 < n"
  shows "length (times_each (times_bcast (new_axis (mT X)) y) (map (map (\<lambda>p. 1 - p)) y)) = d"
    and "\<And>i. i < d \<Longrightarrow>
      length (times_each (times_bcast (new_axis (mT X)) y) (map (map (\<lambda>p. 1 - p)) y) ! i) = n"
proof -
  note XT = is_matrixD [OF is_matrix_mT_shape [OF X n]]
  note yD = is_matrixD [OF y]
  show "length (times_each (times_bcast (new_axis (mT X)) y) (map (map (\<lambda>p. 1 - p)) y)) = d"
    using XT by (simp add: times_each_def times_bcast_def new_axis_def)
  show "length (times_each (times_bcast (new_axis (mT X)) y) (map (map (\<lambda>p. 1 - p)) y) ! i) = n"
    if "i < d" for i
    using XT yD that by (simp add: times_each_def times_bcast_def new_axis_def)
qed

lemma hessian_tensor:
  assumes X: "is_matrix n d X" and y: "is_matrix n K y" and n: "0 < n"
  shows "MultiLogisticRegression_hessian alpha X y (new_axis (eye d))
         = map (\<lambda>i. map (\<lambda>j. map (\<lambda>k. hess_entry alpha X y i j k) [0..<K]) [0..<d]) [0..<d]"
proof -
  let ?R = "times_each (times_bcast (new_axis (mT X)) y) (map (map (\<lambda>p. 1 - p)) y)"
  note R = R_shape [OF X y n]
  note XD = is_matrixD [OF X]
  note yD = is_matrixD [OF y]
  have nc: "ncols X = d" using ncols_is_matrix [OF X n] .
  have ncR: "ncols (?R ! i) = K" if "i < d" for i
  proof -
    have "?R ! i \<noteq> []" using R(2) [OF that] n by auto
    then have "ncols (?R ! i) = length (?R ! i ! 0)"
      by (cases "?R ! i") (simp_all add: ncols_def)
    then show ?thesis using R_entry [OF X y that n] yD n by simp
  qed
  have E: "einsum_ink_nj_ijk ?R X
           = map (\<lambda>i. map (\<lambda>j. map (\<lambda>k. \<Sum>m<n. X ! m ! i * (y ! m ! k * (1 - y ! m ! k)) * X ! m ! j)
                    [0..<K]) [0..<d]) [0..<d]"
  proof (rule nth_equalityI, goal_cases)
    case 1
    show ?case using R(1) by (simp add: einsum_ink_nj_ijk_def)
  next
    case (2 i)
    then have i: "i < d" using R(1) by (simp add: einsum_ink_nj_ijk_def)
    have "sum_list (map2 (\<lambda>Rin Xn. Rin ! k * Xn ! j) (?R ! i) X)
          = (\<Sum>m<n. X ! m ! i * (y ! m ! k * (1 - y ! m ! k)) * X ! m ! j)" if "k < K" for j k
    proof -
      have "sum_list (map2 (\<lambda>Rin Xn. Rin ! k * Xn ! j) (?R ! i) X)
            = (\<Sum>m<n. ?R ! i ! m ! k * X ! m ! j)"
        using sum_list_map2_nth [of "?R ! i" X "\<lambda>Rin Xn. Rin ! k * Xn ! j"] R(2) [OF i] XD(1)
        by simp
      also have "\<dots> = (\<Sum>m<n. X ! m ! i * (y ! m ! k * (1 - y ! m ! k)) * X ! m ! j)"
        using that yD by (intro sum.cong) (simp_all add: R_entry [OF X y i] mult.assoc)
      finally show ?thesis .
    qed
    then show ?case
      using i R(1) by (simp add: einsum_ink_nj_ijk_def nc ncR)
  qed
  show ?thesis
    unfolding MultiLogisticRegression_hessian_def E
    using XD(1)
    by (auto simp: plus_bcast_def tscale_def new_axis_def mscale_def vscale_def eye_def
        hess_entry_def intro!: nth_equalityI)
qed

lemma hess_entry_sym: "hess_entry alpha X y i j k = hess_entry alpha X y j i k"
  unfolding hess_entry_def
  by (auto intro!: sum.cong simp: mult.commute mult.left_commute)

lemma tT_entries:
  assumes "0 < d"
  shows "tT (map (\<lambda>i. map (\<lambda>j. map (\<lambda>k. h i j k) [0..<K]) [0..<d]) [0..<d])
         = map (\<lambda>k. map (\<lambda>j. map (\<lambda>i. h i j k) [0..<d]) [0..<d]) [0..<K]"
proof -
  let ?H = "map (\<lambda>i. map (\<lambda>j. map (\<lambda>k. h i j k) [0..<K]) [0..<d]) [0..<d]"
  have nc: "ncols ?H = d" by (simp add: ncols_map_upt [OF assms])
  have "dim2 ?H = ncols (?H ! 0)"
    using assms by (cases d) (simp_all add: dim2_def upt_conv_Cons del: upt_Suc)
  also have "\<dots> = K" using assms by (simp add: ncols_map_upt [OF assms])
  finally have d2: "dim2 ?H = K" .
  show ?thesis
    unfolding tT_def nc d2
    by (auto intro!: nth_equalityI)
qed

lemma block_entries:
  assumes X: "is_matrix n d X" and v: "length v = n" and n: "0 < n"
  shows "irls_hessian alpha X v
         = map (\<lambda>j. map (\<lambda>i. (\<Sum>m<n. X ! m ! j * (v ! m * (1 - v ! m)) * X ! m ! i)
                              + alpha * (if j = i then 1 else 0)) [0..<d]) [0..<d]"
proof -
  let ?v = "map (\<lambda>p. p * (1 - p)) v"
  note XT = is_matrixD [OF is_matrix_mT_shape [OF X n]]
  note XD = is_matrixD [OF X]
  have nc: "ncols X = d" using ncols_is_matrix [OF X n] .
  have "list_all (\<lambda>r. length r = length ?v) (mT X)"
    using is_matrix_mT [OF X] v by simp
  then have md: "matmul (mT X) (diag ?v) = rows_times (mT X) ?v" by (rule matmul_diag)
  have ent: "dot (vmul (mT X ! j) ?v) (mT X ! i)
             = (\<Sum>m<n. X ! m ! j * (v ! m * (1 - v ! m)) * X ! m ! i)"
    if "i < d" "j < d" for i j
  proof -
    have "dot (vmul (mT X ! j) ?v) (mT X ! i)
          = (\<Sum>m<n. vmul (mT X ! j) ?v ! m * mT X ! i ! m)"
      using XT that v by (simp add: dot_nth vmul_def)
    also have "\<dots> = (\<Sum>m<n. X ! m ! j * (v ! m * (1 - v ! m)) * X ! m ! i)"
      using XT that v
      by (intro sum.cong) (simp_all add: vmul_def mT_entry [OF X])
    finally show ?thesis .
  qed
  have mm: "matmul (rows_times (mT X) ?v) X
        = map (\<lambda>j. map (\<lambda>i. \<Sum>m<n. X ! m ! j * (v ! m * (1 - v ! m)) * X ! m ! i) [0..<d]) [0..<d]"
    using XT ent by (auto simp: matmul_def rows_times_def intro!: nth_equalityI)
  show ?thesis
    unfolding irls_hessian_def md mm nc
    by (auto simp: madd_def mscale_def vadd_def vscale_def eye_def intro!: nth_equalityI)
qed

lemma hessian_blocks:
  assumes X: "is_matrix n d X" and y: "is_matrix n K y" and n: "0 < n" and d: "0 < d"
  shows "tT (MultiLogisticRegression_hessian alpha X y (new_axis (eye d)))
         = map (\<lambda>k. irls_hessian alpha X (mT y ! k)) [0..<K]"
proof -
  note XD = is_matrixD [OF X]
  note yD = is_matrixD [OF y]
  have ncy: "ncols y = K" using ncols_is_matrix [OF y n] .
  have blk: "irls_hessian alpha X (mT y ! k)
             = map (\<lambda>j. map (\<lambda>i. hess_entry alpha X y i j k) [0..<d]) [0..<d]" if "k < K" for k
  proof -
    have v: "mT y ! k = map (\<lambda>r. r ! k) y" using that ncy by (simp add: mT_nth)
    have lv: "length (mT y ! k) = n" using v yD by simp
    have "(\<Sum>m<n. X ! m ! j * (mT y ! k ! m * (1 - mT y ! k ! m)) * X ! m ! i)
          = (\<Sum>m<n. X ! m ! j * (y ! m ! k * (1 - y ! m ! k)) * X ! m ! i)" for i j
      using yD by (intro sum.cong) (simp_all add: v)
    then show ?thesis
      unfolding block_entries [OF X lv n]
      using XD(1) by (auto simp: hess_entry_def intro!: nth_equalityI sum.cong mult.commute
          simp: mult.commute mult.left_commute)
  qed
  show ?thesis
    unfolding hessian_tensor [OF X y n] tT_entries [OF d]
    using blk by (auto intro!: nth_equalityI)
qed

lemma those_Some_nth:
  "those xs = Some ys \<Longrightarrow> length ys = length xs \<and> (\<forall>k<length xs. xs ! k = Some (ys ! k))"
proof (induction xs arbitrary: ys)
  case Nil
  then show ?case by simp
next
  case (Cons x xs)
  then obtain z zs where x: "x = Some z" and zs: "those xs = Some zs" and ys: "ys = z # zs"
    by (auto split: option.splits)
  from Cons.IH [OF zs] show ?case
    using x ys by (auto simp: nth_Cons split: nat.splits)
qed

lemma solve_stack_blocks:
  assumes "length bs = K"
  shows "solve_stack solve (map f [0..<K]) bs = those (map (\<lambda>k. solve (f k) (bs ! k)) [0..<K])"
proof -
  have "map2 solve (map f [0..<K]) bs = map (\<lambda>k. solve (f k) (bs ! k)) [0..<K]"
    using assms by (auto intro!: nth_equalityI)
  then show ?thesis by (simp add: solve_stack_def)
qed

lemma column_update:
  assumes w: "is_matrix d K w" and delta: "is_matrix K d delta"
    and d: "0 < d" and k: "k < K"
  shows "mT (msub w (mT delta)) ! k = vsub (mT w ! k) (delta ! k)"
proof -
  have K: "0 < K" using k by simp
  note dT = is_matrix_mT_shape [OF delta K]
  note m = msub_shape [OF w dT]
  note wD = is_matrixD [OF w] and dD = is_matrixD [OF delta] and dTD = is_matrixD [OF dT]
  have l1: "length (mT (msub w (mT delta)) ! k) = d"
    using is_matrixD [OF is_matrix_mT_shape [OF m d]] k by simp
  have l2: "length (mT w ! k) = d"
    using is_matrixD [OF is_matrix_mT_shape [OF w d]] k by simp
  show ?thesis
  proof (rule nth_equalityI)
    show "length (mT (msub w (mT delta)) ! k) = length (vsub (mT w ! k) (delta ! k))"
      using l1 l2 dD k by (simp add: vsub_def)
  next
    fix i assume "i < length (mT (msub w (mT delta)) ! k)"
    then have i: "i < d" using l1 by simp
    have "mT (msub w (mT delta)) ! k ! i = msub w (mT delta) ! i ! k"
      by (rule mT_entry [OF m i k])
    also have "\<dots> = w ! i ! k - mT delta ! i ! k"
      using wD dTD i k by (simp add: msub_def vsub_def)
    also have "\<dots> = mT w ! k ! i - delta ! k ! i"
      by (simp add: mT_entry [OF w i k] mT_entry [OF delta k i])
    also have "\<dots> = vsub (mT w ! k) (delta ! k) ! i"
      using l2 dD i k by (simp add: vsub_def)
    finally show "mT (msub w (mT delta)) ! k ! i = vsub (mT w ! k) (delta ! k) ! i" .
  qed
qed

lemma body_blocks:
  assumes X: "is_matrix n d X" and w: "is_matrix d K (mself_w fr)" and T: "is_matrix n K T"
    and pos: "0 < n" "0 < d"
  shows "MultiLogisticRegression_body solve alpha X T (new_axis (eye (length (mself_w fr)))) i fr =
           (case those (map (\<lambda>k. solve (irls_hessian alpha X (mT (softmax (matmul X (mself_w fr))) ! k))
                                       (mT (madd (matmul (mT X) (msub (softmax (matmul X (mself_w fr))) T))
                                                 (mscale alpha (mself_w fr))) ! k))
                         [0..<K]) of
              None \<Rightarrow> (fr\<lparr>mloop_i := Some i\<rparr>, True)
            | Some delta \<Rightarrow>
                (fr\<lparr>mloop_i := Some i, mself_w := msub (mself_w fr) (mT delta)\<rparr>,
                 mallclose (mself_w fr) (msub (mself_w fr) (mT delta))))"
proof -
  let ?w = "mself_w fr"
  let ?y = "softmax (matmul X ?w)"
  let ?grad = "madd (matmul (mT X) (msub ?y T)) (mscale alpha ?w)"
  have lw: "length ?w = d" using w by (simp add: is_matrix_def)
  have lX: "length X = n" using X by (simp add: is_matrix_def)
  have y: "is_matrix n K ?y" by (rule softmax_shape [OF lX w pos(2)])
  have g: "is_matrix d K ?grad"
    using grad_shape [OF X w T y pos(1), of alpha]
    by (simp add: MultiLogisticRegression_grad_def)
  note gTD = is_matrixD [OF is_matrix_mT_shape [OF g pos(2)]]
  have st: "solve_stack solve
              (tT (MultiLogisticRegression_hessian alpha X ?y (new_axis (eye d)))) (mT ?grad)
            = those (map (\<lambda>k. solve (irls_hessian alpha X (mT ?y ! k)) (mT ?grad ! k)) [0..<K])"
    unfolding hessian_blocks [OF X y pos(1,2)]
    by (rule solve_stack_blocks [OF gTD(1)])
  show ?thesis
    using st
    by (simp add: MultiLogisticRegression_body_def Let_def lw
        MultiLogisticRegression_predict_proba_def MultiLogisticRegression_grad_def
        split: option.splits)
qed

lemma answers_sound:
  assumes X: "is_matrix n d X" and w: "is_matrix d K w" and T: "is_matrix n K T"
    and pos: "0 < n" "0 < d" and sound: "solver_sound solve"
    and a: "those (map (\<lambda>k. solve (B k)
                (mT (madd (matmul (mT X) (msub (softmax (matmul X w)) T)) (mscale alpha w)) ! k))
              [0..<K]) = Some delta"
  shows "is_matrix K d delta"
    and "\<And>k. k < K \<Longrightarrow>
          solve (B k) (mT (madd (matmul (mT X) (msub (softmax (matmul X w)) T)) (mscale alpha w)) ! k)
            = Some (delta ! k)
          \<and> matvec (B k) (delta ! k)
            = mT (madd (matmul (mT X) (msub (softmax (matmul X w)) T)) (mscale alpha w)) ! k"
proof -
  let ?y = "softmax (matmul X w)"
  let ?grad = "madd (matmul (mT X) (msub ?y T)) (mscale alpha w)"
  have lX: "length X = n" using X by (simp add: is_matrix_def)
  have y: "is_matrix n K ?y" by (rule softmax_shape [OF lX w pos(2)])
  have g: "is_matrix d K ?grad"
    using grad_shape [OF X w T y pos(1), of alpha]
    by (simp add: MultiLogisticRegression_grad_def)
  note gTD = is_matrixD [OF is_matrix_mT_shape [OF g pos(2)]]
  from those_Some_nth [OF a]
  have ld: "length delta = K"
    and sv: "\<And>j. j < K \<Longrightarrow> solve (B j) (mT ?grad ! j) = Some (delta ! j)"
    by simp_all
  have snd: "length (delta ! j) = d \<and> matvec (B j) (delta ! j) = mT ?grad ! j"
    if "j < K" for j
    using sound sv [OF that] gTD(2) [OF that] unfolding solver_sound_def by metis
  show "is_matrix K d delta" using ld snd by (intro is_matrixI) simp_all
  show "solve (B k) (mT ?grad ! k) = Some (delta ! k)
        \<and> matvec (B k) (delta ! k) = mT ?grad ! k" if "k < K" for k
    using sv [OF that] snd [OF that] by simp
qed

text \<open>
  C2. In every pass through the loop of \<^verbatim>\<open>MultiLogisticRegression.fit\<close>, on \<open>n \<ge> 1\<close> samples
  with \<open>d \<ge> 1\<close> features and \<open>K \<ge> 1\<close> classes: with \<open>y = softmax (X W)\<close>, the stack of matrices
  handed to the solver, \<^verbatim>\<open>hessian.T\<close>, holds for each class \<open>k\<close> the block
  \<^verbatim>\<open>X.T diag(y[:,k] (1 - y[:,k])) X + alpha I\<close>, with no term that couples two classes; the pass
  solves, for each class, the system of its block and its column of the gradient, and when all
  \<open>K\<close> systems are solved it takes the answer of class \<open>k\<close> from column \<open>k\<close> of the weights.
  One failed system breaks the loop and leaves the weights alone.
\<close>

theorem MultiLogisticRegression_iteration:
  assumes X: "is_matrix n d X" and w: "is_matrix d K (mself_w fr)" and T: "is_matrix n K T"
    and pos: "0 < n" "0 < d" "0 < K" and sound: "solver_sound solve"
  shows "let w = mself_w fr;
             y = softmax (matmul X w);
             grad = madd (matmul (mT X) (msub y T)) (mscale alpha w);
             block = (\<lambda>k. irls_hessian alpha X (mT y ! k));
             answers = those (map (\<lambda>k. solve (block k) (mT grad ! k)) [0..<K])
         in MultiLogisticRegression_body solve alpha X T (new_axis (eye (length w))) i fr =
              (case answers of
                 None \<Rightarrow> (fr\<lparr>mloop_i := Some i\<rparr>, True)
               | Some delta \<Rightarrow>
                   (fr\<lparr>mloop_i := Some i, mself_w := msub w (mT delta)\<rparr>,
                    mallclose w (msub w (mT delta))))
            \<and> (\<forall>delta. answers = Some delta \<longrightarrow>
                  (\<forall>k<K. solve (block k) (mT grad ! k) = Some (delta ! k)
                        \<and> matvec (block k) (delta ! k) = mT grad ! k
                        \<and> mT (msub w (mT delta)) ! k = vsub (mT w ! k) (delta ! k)))"
proof -
  let ?w = "mself_w fr"
  let ?y = "softmax (matmul X ?w)"
  let ?grad = "madd (matmul (mT X) (msub ?y T)) (mscale alpha ?w)"
  let ?block = "\<lambda>k. irls_hessian alpha X (mT ?y ! k)"
  let ?answers = "those (map (\<lambda>k. solve (?block k) (mT ?grad ! k)) [0..<K])"
  note body = body_blocks [OF X w T pos(1,2), of solve alpha i]
  have each: "solve (?block k) (mT ?grad ! k) = Some (delta ! k)
              \<and> matvec (?block k) (delta ! k) = mT ?grad ! k
              \<and> mT (msub ?w (mT delta)) ! k = vsub (mT ?w ! k) (delta ! k)"
    if a: "?answers = Some delta" and k: "k < K" for delta k
    using answers_sound [OF X w T pos(1,2) sound a]
      column_update [OF w _ pos(2) k, of delta] k
    by blast
  show ?thesis
    unfolding Let_def using body each by blast
qed

theorem MultiLogisticRegression_iteration_witness:
  "is_matrix 1 1 [[1::real]] \<and> is_matrix 1 2 (mself_w \<lparr>mloop_i = None, mself_w = [[0, 0]]\<rparr>)
   \<and> is_matrix 1 2 [[1, 0::real]] \<and> solver_sound solve_1x1
   \<and> MultiLogisticRegression_body solve_1x1 0 [[1]] [[1, 0]] (new_axis (eye 1)) 0
        \<lparr>mloop_i = None, mself_w = [[0, 0]]\<rparr>
      = (\<lparr>mloop_i = Some 0, mself_w = [[2, - 2]]\<rparr>, False)"
proof -
  have h: "is_matrix 1 1 [[1::real]]"
    "is_matrix 1 2 (mself_w \<lparr>mloop_i = None, mself_w = [[0, 0]]\<rparr>)"
    "is_matrix 1 2 [[1, 0::real]]"
    by (simp_all add: is_matrix_def)
  have y: "softmax (matmul [[1]] [[0, 0]]) = [[1 / 2, 1 / 2]]"
    by (simp add: softmax_def softmax_row_def array_defs upt_conv_Cons)
  have g: "mT (madd (matmul (mT [[1]]) (msub [[1 / 2, 1 / 2]] [[1, 0]])) (mscale 0 [[0, 0]]))
           = [[- 1 / 2], [1 / 2]]"
    by (simp add: array_defs upt_conv_Cons)
  have b: "irls_hessian 0 [[1]] (mT [[1 / 2, 1 / 2]] ! 0) = [[1 / 4]]"
    "irls_hessian 0 [[1]] (mT [[1 / 2, 1 / 2]] ! Suc 0) = [[1 / 4]]"
    by (simp_all add: irls_hessian_def array_defs upt_conv_Cons)
  have u: "[0..<2] = [0, 1]" by (simp add: upt_conv_Cons)
  have r: "msub [[0, 0]] (mT [[- 2], [2]]) = [[2, - 2]]"
    by (simp add: array_defs upt_conv_Cons)
  show ?thesis
    using MultiLogisticRegression_iteration [OF h _ _ _ solve_1x1_sound, of 0 0]
      h solve_1x1_sound
    by (simp add: Let_def y g b u r mallclose_def allclose_def atol_def rtol_def)
qed

lemma sum_list_pos:
  "xs \<noteq> [] \<Longrightarrow> list_all (\<lambda>x. 0 < x) xs \<Longrightarrow> 0 < sum_list (xs :: real list)"
  by (induction xs) (auto simp: add_pos_nonneg add_pos_pos intro: add_pos_nonneg  sum_list_nonneg less_imp_le simp: list_all_iff)

lemma softmax_row_sum:
  assumes "a \<noteq> []"
  shows "sum_list (softmax_row a) = 1" and "list_all (\<lambda>p. 0 \<le> p) (softmax_row a)"
proof -
  let ?e = "map (\<lambda>x. exp (x - Max (set a))) a"
  have pos: "0 < sum_list ?e"
    using assms by (intro sum_list_pos) (simp_all add: list_all_iff)
  have "sum_list (softmax_row a) = (\<Sum>e\<leftarrow>?e. e * (1 / sum_list ?e))"
    by (simp add: softmax_row_def Let_def o_def)
  also have "\<dots> = sum_list ?e * (1 / sum_list ?e)"
    using sum_list_mult_const [of "\<lambda>e. e" "1 / sum_list ?e" ?e] by simp
  also have "\<dots> = 1" using pos by simp
  finally show "sum_list (softmax_row a) = 1" .
  show "list_all (\<lambda>p. 0 \<le> p) (softmax_row a)"
    using pos by (simp add: softmax_row_def Let_def list_all_iff)
qed

lemma predict_proba_rows:
  assumes w: "is_matrix d K w" and pos: "0 < d" "0 < K"
  shows "list_all (\<lambda>row. sum_list row = 1 \<and> list_all (\<lambda>p. 0 \<le> p) row)
           (MultiLogisticRegression_predict_proba w X)"
proof -
  have nc: "ncols w = K" using ncols_is_matrix [OF w pos(1)] .
  have ne: "map (dot r) (mT w) \<noteq> []" for r using nc pos(2) by (simp add: mT_def)
  have "sum_list (softmax_row (map (dot r) (mT w))) = 1
        \<and> list_all (\<lambda>p. 0 \<le> p) (softmax_row (map (dot r) (mT w)))" for r
    using softmax_row_sum [OF ne [of r]] by simp
  then show ?thesis
    by (simp add: MultiLogisticRegression_predict_proba_def softmax_def matmul_def list_all_iff)
qed

lemma body_keeps_shape:
  assumes X: "is_matrix n d X" and w: "is_matrix d K (mself_w fr)" and T: "is_matrix n K T"
    and pos: "0 < n" "0 < d" "0 < K" and sound: "solver_sound solve"
  shows "is_matrix d K
           (mself_w (fst (MultiLogisticRegression_body solve alpha X T (new_axis (eye d)) i fr)))"
proof -
  let ?a = "those (map (\<lambda>k. solve (irls_hessian alpha X (mT (softmax (matmul X (mself_w fr))) ! k))
                                (mT (madd (matmul (mT X) (msub (softmax (matmul X (mself_w fr))) T))
                                          (mscale alpha (mself_w fr))) ! k))
                       [0..<K])"
  have lw: "length (mself_w fr) = d" using w by (simp add: is_matrix_def)
  note body = body_blocks [OF X w T pos(1,2), of solve alpha i, unfolded lw]
  show ?thesis
  proof (cases ?a)
    case None
    then show ?thesis using body w by simp
  next
    case (Some delta)
    have "is_matrix K d delta" by (rule answers_sound(1) [OF X w T pos(1,2) sound Some])
    then have "is_matrix d K (msub (mself_w fr) (mT delta))"
      by (intro msub_shape w is_matrix_mT_shape pos)
    then show ?thesis using body Some by simp
  qed
qed

lemma loop_keeps_shape:
  assumes X: "is_matrix n d X" and T: "is_matrix n K T"
    and pos: "0 < n" "0 < d" "0 < K" and sound: "solver_sound solve"
  shows "is_matrix d K (mself_w fr) \<Longrightarrow>
         is_matrix d K
           (mself_w (MultiLogisticRegression_loop solve alpha X T (new_axis (eye d)) is fr))"
proof (induction "is" arbitrary: fr)
  case Nil
  then show ?case by simp
next
  case (Cons i rest)
  note b = body_keeps_shape [OF X Cons.prems T pos sound, of alpha i]
  show ?case
  proof (cases "MultiLogisticRegression_body solve alpha X T (new_axis (eye d)) i fr")
    case (Pair fr' brk)
    then have "is_matrix d K (mself_w fr')" using b by simp
    then show ?thesis using Pair Cons.IH [of fr'] by simp
  qed
qed

lemma eye_rows_shape:
  assumes "eye_rows c t = Inr T"
  shows "is_matrix (length t) (nat c) T"
proof -
  from assms have c: "0 \<le> c" and r: "\<And>k. k \<in> set t \<Longrightarrow> - c \<le> k \<and> k < c"
    and T: "T = map (\<lambda>k. eye (nat c) ! nat (if k < 0 then k + c else k)) t"
    by (auto simp: eye_rows_def list_ex_iff split: if_splits)
  have "length (eye (nat c) ! nat (if k < 0 then k + c else k)) = nat c" if "k \<in> set t" for k
  proof -
    have "nat (if k < 0 then k + c else k) < nat c" using r [OF that] c by auto
    then show ?thesis by (simp add: eye_def)
  qed
  then show ?thesis by (simp add: T is_matrix_def list_all_iff)
qed

lemma eye_rows_classes:
  assumes "eye_rows c t = Inr T" "t \<noteq> []"
  shows "0 < c"
proof -
  from assms(2) obtain k where "k \<in> set t" by (cases t) auto
  with assms(1) have "- c \<le> k \<and> k < c"
    by (auto simp: eye_rows_def list_ex_iff split: if_splits)
  then show ?thesis by linarith
qed

lemma fit_weights_shape:
  assumes fit: "MultiLogisticRegression_fit solve alpha X t iter_max = Inr self"
    and X: "is_matrix n d X" and t: "length t = n" and d: "0 < d"
    and sound: "solver_sound solve"
  shows "is_matrix d (nat (Max (set t) + 1)) (mlr_w self) \<and> 0 < nat (Max (set t) + 1)"
proof -
  let ?c = "Max (set t) + 1"
  from fit have ne: "t \<noteq> []" by (auto simp: MultiLogisticRegression_fit_def split: if_splits)
  then have n: "0 < n" using t by auto
  have nc: "ncols X = d" using ncols_is_matrix [OF X n] .
  from fit ne obtain T where T: "eye_rows ?c t = Inr T"
    by (auto simp: MultiLogisticRegression_fit_def Let_def split: sum.splits)
  have K: "0 < nat ?c" using eye_rows_classes [OF T ne] by simp
  have Tm: "is_matrix n (nat ?c) T" using eye_rows_shape [OF T] t by simp
  let ?w0 = "replicate d (replicate (nat ?c) (0::real))"
  have w0: "is_matrix d (nat ?c) (mself_w \<lparr>mloop_i = None, mself_w = ?w0\<rparr>)"
    by (simp add: is_matrix_def list_all_iff)
  note sh = loop_keeps_shape [OF X Tm n d K sound w0, of alpha "py_range iter_max"]
  from fit ne T have "mlr_w self = mself_w (MultiLogisticRegression_loop solve alpha X T
      (new_axis (eye d)) (py_range iter_max) \<lparr>mloop_i = None, mself_w = ?w0\<rparr>)"
    by (auto simp: MultiLogisticRegression_fit_def Let_def nc
        MultiLogisticRegression_finish_def split: option.splits)
  then show ?thesis using sh K by simp
qed

text \<open>
  C9. For a model fitted on a feature matrix with \<open>n\<close> rows, \<open>d \<ge> 1\<close> columns and \<open>n\<close> labels,
  and any input \<open>X\<close>: every row of \<^verbatim>\<open>predict_proba(X)\<close> sums to 1 and has no negative entry.
  The sum is exact in real arithmetic; the row maximum that \<^verbatim>\<open>_softmax\<close> subtracts cancels.
\<close>

theorem predict_proba_row_stochastic:
  assumes fit: "MultiLogisticRegression_fit solve alpha Xtrain t iter_max = Inr self"
    and X: "is_matrix n d Xtrain" and t: "length t = n" and d: "0 < d"
    and sound: "solver_sound solve"
  shows "list_all (\<lambda>row. sum_list row = 1 \<and> list_all (\<lambda>p. 0 \<le> p) row)
           (MultiLogisticRegression_predict_proba (mlr_w self) X)"
proof -
  from fit_weights_shape [OF fit X t d sound]
  have w: "is_matrix d (nat (Max (set t) + 1)) (mlr_w self)" and K: "0 < nat (Max (set t) + 1)"
    by simp_all
  show ?thesis by (rule predict_proba_rows [OF w d K])
qed

theorem predict_proba_row_stochastic_witness:
  "MultiLogisticRegression_fit solve_1x1 0 [[1]] [1] 1 = Inr \<lparr>mlr_w = [[- 2, 2]], mlr_n_iter = 1\<rparr>
   \<and> is_matrix 1 1 [[1::real]] \<and> length [1::int] = 1 \<and> (0::nat) < 1 \<and> solver_sound solve_1x1
   \<and> list_all (\<lambda>row. sum_list row = 1 \<and> list_all (\<lambda>p. 0 \<le> p) row)
        (MultiLogisticRegression_predict_proba [[- 2, 2]] [[3], [5]])"
proof -
  have y: "softmax (matmul [[1]] [[0, 0]]) = [[1 / 2, 1 / 2]]"
    by (simp add: softmax_def softmax_row_def array_defs upt_conv_Cons)
  have T: "eye_rows 2 [1] = Inr [[0, 1]]"
    by (simp add: eye_rows_def eye_def upt_conv_Cons)
  have g: "mT (madd (matmul (mT [[1]]) (msub [[1 / 2, 1 / 2]] [[0, 1]])) (mscale 0 [[0, 0]]))
           = [[1 / 2], [- 1 / 2]]"
    by (simp add: array_defs upt_conv_Cons)
  have k: "irls_hessian 0 [[1]] (mT [[1 / 2, 1 / 2]] ! 0) = [[1 / 4]]"
    "irls_hessian 0 [[1]] (mT [[1 / 2, 1 / 2]] ! Suc 0) = [[1 / 4]]"
    by (simp_all add: irls_hessian_def array_defs upt_conv_Cons)
  have u: "[0..<2] = [0, 1]" by (simp add: upt_conv_Cons)
  have r: "msub [[0, 0]] (mT [[2], [- 2]]) = [[- 2, 2]]"
    by (simp add: array_defs upt_conv_Cons)
  have m: "is_matrix 1 1 [[1::real]]"
    "is_matrix 1 2 (mself_w \<lparr>mloop_i = None, mself_w = [[0, 0]]\<rparr>)"
    "is_matrix 1 2 [[0, 1::real]]"
    by (simp_all add: is_matrix_def)
  have b: "MultiLogisticRegression_body solve_1x1 0 [[1]] [[0, 1]] (new_axis (eye 1)) 0
             \<lparr>mloop_i = None, mself_w = [[0, 0]]\<rparr>
           = (\<lparr>mloop_i = Some 0, mself_w = [[- 2, 2]]\<rparr>, False)"
    using body_blocks [OF m, of solve_1x1 0 0]
    by (simp add: y g k u r mallclose_def allclose_def atol_def rtol_def)
  have f: "MultiLogisticRegression_fit solve_1x1 0 [[1]] [1] 1
           = Inr \<lparr>mlr_w = [[- 2, 2]], mlr_n_iter = 1\<rparr>"
    using T b
    by (simp add: MultiLogisticRegression_fit_def MultiLogisticRegression_finish_def Let_def
        py_range_def ncols_def numeral_2_eq_2)
  have h: "is_matrix 1 1 [[1::real]]" "length [1::int] = 1" "(0::nat) < 1"
    by (simp_all add: is_matrix_def)
  show ?thesis
    using predict_proba_row_stochastic [OF f h solve_1x1_sound, of "[[3], [5]]"]
      f h solve_1x1_sound
    by simp
qed

end
